theory Spec2Isabelle
  imports Main "HOL-Library.AList" "HOL-Library.Multiset" "HOL-Library.Char_ord"
    "HOL-Library.List_Lexorder"
begin

text \<open>
  A verification development for the logging library \<open>logr\<close>: the front-end logger
  \<open>Sugar\<close> (deriving loggers with fields, and the logging calls that go through the
  dispatcher), the dispatcher with its explicit level filter, and the JSON formatter.
  First the definitions, which follow the Go sources function by function, then the
  properties.
\<close>

section \<open>The front-end logger (package logr, type Sugar)\<close>

subsection \<open>Field maps in a store\<close>

text \<open>
  A Go value of type \<open>Fields\<close> (\<open>map[string]interface{}\<close>) is a reference: either nil or
  the address of a map object. The map objects live in a store, a list indexed by
  address; an object is its list of entries, and \<open>range\<close> visits the entries in the
  order of that list (any order can occur, since the store is arbitrary).
  The element type \<open>'v\<close> stands for \<open>interface{}\<close>.
\<close>

type_synonym 'v MapObj = "(string \<times> 'v) list"

type_synonym 'v MapStore = "'v MapObj list"

type_synonym Fields = "nat option"

text \<open>The struct \<open>Sugar\<close>; its field \<open>fields\<close> is named \<open>fields_ref\<close> here (the record package
  reserves \<open>fields\<close>), \<open>logr\<close> is the pointer to the dispatcher.\<close>

record Sugar =
  logr :: nat
  fields_ref :: Fields

definition valid_ref :: "'v MapStore \<Rightarrow> Fields \<Rightarrow> bool" where
  "valid_ref h r = (case r of None \<Rightarrow> True | Some a \<Rightarrow> a < length h)"

text \<open>Reading through a reference; a nil map reads as the empty map.\<close>

definition deref :: "'v MapStore \<Rightarrow> Fields \<Rightarrow> 'v MapObj" where
  "deref h r = (case r of None \<Rightarrow> [] | Some a \<Rightarrow> h ! a)"

text \<open>\<open>len(m)\<close>\<close>

definition len :: "'v MapStore \<Rightarrow> Fields \<Rightarrow> nat" where
  "len h r = length (deref h r)"

text \<open>\<open>make(Fields, n)\<close>: a new, empty map object at a fresh address (the capacity hint
  \<open>n\<close> has no observable effect).\<close>

definition make_map :: "nat \<Rightarrow> 'v MapStore \<Rightarrow> nat \<times> 'v MapStore" where
  "make_map n h = (length h, h @ [[]])"

text \<open>\<open>m[k] = v\<close> on the map object at address \<open>a\<close>.\<close>

definition assign :: "nat \<Rightarrow> string \<Rightarrow> 'v \<Rightarrow> 'v MapStore \<Rightarrow> 'v MapStore" where
  "assign a k v h = h[a := AList.update k v (h ! a)]"

text \<open>\<open>for k, v := range src { dst[k] = v }\<close>, where \<open>kvs\<close> are the entries of \<open>src\<close>.\<close>

fun range_assign :: "(string \<times> 'v) list \<Rightarrow> nat \<Rightarrow> 'v MapStore \<Rightarrow> 'v MapStore" where
  "range_assign [] a h = h"
| "range_assign ((k, v) # kvs) a h = range_assign kvs a (assign a k v h)"

subsection \<open>WithFields and WithField\<close>

text \<open>
  \<open>WithFields\<close> "creates a new Sugar logger with any existing fields plus the new ones";
  if the parent has no fields it avoids creating a new map. The store is passed in and
  returned, since the call may allocate a map object.
\<close>

definition WithFields :: "Sugar \<Rightarrow> Fields \<Rightarrow> 'v MapStore \<Rightarrow> Sugar \<times> 'v MapStore" where
  "WithFields logger flds h =
    (let l = \<lparr>logr = logr logger, fields_ref = None\<rparr>;
         oldLen = len h (fields_ref logger)
     in if oldLen = 0 then (l\<lparr>fields_ref := flds\<rparr>, h)
        else
          (let (a, h1) = make_map (len h flds + oldLen) h;
               h2 = range_assign (deref h1 (fields_ref logger)) a h1;
               h3 = range_assign (deref h2 flds) a h2
           in (l\<lparr>fields_ref := Some a\<rparr>, h3)))"

text \<open>\<open>Fields{key: value}\<close> allocates a one-entry map object, which is then passed on.\<close>

definition WithField :: "Sugar \<Rightarrow> string \<Rightarrow> 'v \<Rightarrow> 'v MapStore \<Rightarrow> Sugar \<times> 'v MapStore" where
  "WithField logger key val h = WithFields logger (Some (length h)) (h @ [[(key, val)]])"

subsection \<open>Stores and a logger for concrete evaluations\<close>

text \<open>One map object with a field and one empty; two map objects that share the key \<open>a\<close>,
  and a logger whose fields are the first of them.\<close>

definition ex_store :: "nat MapStore" where
  "ex_store = [[(''user'', 1)], []]"

definition ex_maps :: "nat MapStore" where
  "ex_maps = [[(''a'', 1)], [(''a'', 2), (''b'', 3)]]"

definition ex_parent :: Sugar where
  "ex_parent = \<lparr>logr = 0, fields_ref = Some 0\<rparr>"

section \<open>The logging calls of Sugar\<close>

subsection \<open>Levels, records and the dispatcher's interface\<close>

text \<open>
  The struct \<open>Level\<close> as the tests build it (\<open>logr.Level{ID: 100, Name: "login ",
  Stacktrace: false}\<close>); its field \<open>Stacktrace\<close> is named \<open>defaultStacktrace\<close> here, the
  name \<open>Stacktrace\<close> being the field of \<open>LevelStatus\<close> that the logging calls read.
\<close>

record Level =
  ID :: nat
  Name :: string
  defaultStacktrace :: bool

record LevelStatus =
  Enabled :: bool
  Stacktrace :: bool

text \<open>
  Modelled from the spec: the struct \<open>LogRec\<close> and its constructor \<open>NewLogRec\<close> are not in
  the sources (only the calls \<open>NewLogRec(lvl, logger, template, args, incStacktrace)\<close> and
  the write \<open>rec.newline = true\<close> are). After the spec's Record: level, source logger,
  template, args and the line-join flag; \<open>stackRequested\<close> stands for the conditional
  stack capture (the stack is captured at construction exactly when it is set). The
  creation time is not modelled.
\<close>

record 'v LogRec =
  level :: Level
  sourceLogger :: Sugar
  template :: string
  arguments :: "'v list"
  newline :: bool
  stackRequested :: bool

text \<open>
  Modelled from the spec: the constructor \<open>NewLogRec\<close>, missing from the sources. Only
  the template, the args and the line-join flag are captured (the message is rendered
  later, by the formatter); the flag is unset until \<open>Logln\<close> sets it.
\<close>

definition NewLogRec :: "Level \<Rightarrow> Sugar \<Rightarrow> string \<Rightarrow> 'v list \<Rightarrow> bool \<Rightarrow> 'v LogRec" where
  "NewLogRec lvl logger format args incStacktrace =
    \<lparr>level = lvl, sourceLogger = logger, template = format, arguments = args,
     newline = False, stackRequested = incStacktrace\<rparr>"

text \<open>
  What the logging calls use and the sources do not hold is a parameter: the methods
  \<open>IsLevelEnabled\<close>, \<open>enqueue\<close> and \<open>exit\<close> of the dispatcher \<open>Logr\<close> (whose state is the
  type \<open>'d\<close>; \<open>exit\<close> gives \<open>None\<close> when the hook ends the process, as the default
  \<open>os.Exit\<close> does), \<open>fmt.Sprint\<close>, and the seven built-in level constants of the package
  (\<open>logr.Trace\<close> ... \<open>logr.Panic\<close>, named \<open>TraceLevel\<close> ... \<open>PanicLevel\<close> here, the
  method names being taken). The two methods of the dispatcher return to their caller:
  after the spec, nothing inside the dispatch path raises back to the logging call.
\<close>

record ('d, 'v) Env =
  IsLevelEnabled :: "Level \<Rightarrow> 'd \<Rightarrow> LevelStatus \<times> 'd"
  enqueue :: "'v LogRec \<Rightarrow> 'd \<Rightarrow> 'd"
  exit :: "int \<Rightarrow> 'd \<Rightarrow> 'd option"
  Sprint :: "'v list \<Rightarrow> string"
  TraceLevel :: Level
  DebugLevel :: Level
  InfoLevel :: Level
  WarnLevel :: Level
  ErrorLevel :: Level
  FatalLevel :: Level
  PanicLevel :: Level

text \<open>
  The effects of a call: the dispatchers (by address, the value of the pointer
  \<open>logger.logr\<close>) and the sequence of calls made so far, in order.
\<close>

datatype 'v Call =
  Call_IsLevelEnabled nat Level
| Call_NewLogRec Level Sugar string "'v list" bool
| Call_enqueue nat "'v LogRec"
| Call_exit nat int

record ('d, 'v) World =
  logrs :: "nat \<Rightarrow> 'd"
  calls :: "'v Call list"

text \<open>How a call ends: it returns, it panics with a value, or the process has exited.\<close>

datatype Outcome = Returns | Panics string | Exits int

definition call_IsLevelEnabled ::
  "('d, 'v) Env \<Rightarrow> nat \<Rightarrow> Level \<Rightarrow> ('d, 'v) World \<Rightarrow> LevelStatus \<times> ('d, 'v) World" where
  "call_IsLevelEnabled E p lvl w =
    (let (status, d) = IsLevelEnabled E lvl (logrs w p)
     in (status, w\<lparr>logrs := (logrs w)(p := d), calls := calls w @ [Call_IsLevelEnabled p lvl]\<rparr>))"

definition call_NewLogRec ::
  "Level \<Rightarrow> Sugar \<Rightarrow> string \<Rightarrow> 'v list \<Rightarrow> bool \<Rightarrow> ('d, 'v) World \<Rightarrow> 'v LogRec \<times> ('d, 'v) World" where
  "call_NewLogRec lvl logger format args incStacktrace w =
    (NewLogRec lvl logger format args incStacktrace,
     w\<lparr>calls := calls w @ [Call_NewLogRec lvl logger format args incStacktrace]\<rparr>)"

definition call_enqueue ::
  "('d, 'v) Env \<Rightarrow> nat \<Rightarrow> 'v LogRec \<Rightarrow> ('d, 'v) World \<Rightarrow> ('d, 'v) World" where
  "call_enqueue E p rec w =
    w\<lparr>logrs := (logrs w)(p := enqueue E rec (logrs w p)), calls := calls w @ [Call_enqueue p rec]\<rparr>"

definition call_exit ::
  "('d, 'v) Env \<Rightarrow> nat \<Rightarrow> int \<Rightarrow> ('d, 'v) World \<Rightarrow> Outcome \<times> ('d, 'v) World" where
  "call_exit E p code w =
    (let w1 = w\<lparr>calls := calls w @ [Call_exit p code]\<rparr>
     in case exit E code (logrs w p) of
          None \<Rightarrow> (Exits code, w1)
        | Some d \<Rightarrow> (Returns, w1\<lparr>logrs := (logrs w1)(p := d)\<rparr>))"

text \<open>Statement after statement: the second runs only when the first has returned.\<close>

definition and_then ::
  "(('d, 'v) World \<Rightarrow> Outcome \<times> ('d, 'v) World) \<Rightarrow> (('d, 'v) World \<Rightarrow> Outcome \<times> ('d, 'v) World)
   \<Rightarrow> ('d, 'v) World \<Rightarrow> Outcome \<times> ('d, 'v) World" where
  "and_then f g w = (case f w of (Returns, w1) \<Rightarrow> g w1 | (out, w1) \<Rightarrow> (out, w1))"

definition panic :: "string \<Rightarrow> ('d, 'v) World \<Rightarrow> Outcome \<times> ('d, 'v) World" where
  "panic v w = (Panics v, w)"

subsection \<open>Print style\<close>

definition Log ::
  "('d, 'v) Env \<Rightarrow> Sugar \<Rightarrow> Level \<Rightarrow> 'v list \<Rightarrow> ('d, 'v) World \<Rightarrow> Outcome \<times> ('d, 'v) World" where
  "Log E logger lvl args w =
    (let (status, w1) = call_IsLevelEnabled E (logr logger) lvl w
     in if Enabled status
        then (let (rec, w2) = call_NewLogRec lvl logger [] args (Stacktrace status) w1
              in (Returns, call_enqueue E (logr logger) rec w2))
        else (Returns, w1))"

definition Trace ::
  "('d, 'v) Env \<Rightarrow> Sugar \<Rightarrow> 'v list \<Rightarrow> ('d, 'v) World \<Rightarrow> Outcome \<times> ('d, 'v) World" where
  "Trace E logger args = Log E logger (TraceLevel E) args"

definition Debug ::
  "('d, 'v) Env \<Rightarrow> Sugar \<Rightarrow> 'v list \<Rightarrow> ('d, 'v) World \<Rightarrow> Outcome \<times> ('d, 'v) World" where
  "Debug E logger args = Log E logger (DebugLevel E) args"

definition Info ::
  "('d, 'v) Env \<Rightarrow> Sugar \<Rightarrow> 'v list \<Rightarrow> ('d, 'v) World \<Rightarrow> Outcome \<times> ('d, 'v) World" where
  "Info E logger args = Log E logger (InfoLevel E) args"

definition Print ::
  "('d, 'v) Env \<Rightarrow> Sugar \<Rightarrow> 'v list \<Rightarrow> ('d, 'v) World \<Rightarrow> Outcome \<times> ('d, 'v) World" where
  "Print E logger args = Info E logger args"

definition Warn ::
  "('d, 'v) Env \<Rightarrow> Sugar \<Rightarrow> 'v list \<Rightarrow> ('d, 'v) World \<Rightarrow> Outcome \<times> ('d, 'v) World" where
  "Warn E logger args = Log E logger (WarnLevel E) args"

definition Error ::
  "('d, 'v) Env \<Rightarrow> Sugar \<Rightarrow> 'v list \<Rightarrow> ('d, 'v) World \<Rightarrow> Outcome \<times> ('d, 'v) World" where
  "Error E logger args = Log E logger (ErrorLevel E) args"

definition Fatal ::
  "('d, 'v) Env \<Rightarrow> Sugar \<Rightarrow> 'v list \<Rightarrow> ('d, 'v) World \<Rightarrow> Outcome \<times> ('d, 'v) World" where
  "Fatal E logger args =
    and_then (Log E logger (FatalLevel E) args) (call_exit E (logr logger) 1)"

definition Panic ::
  "('d, 'v) Env \<Rightarrow> Sugar \<Rightarrow> 'v list \<Rightarrow> ('d, 'v) World \<Rightarrow> Outcome \<times> ('d, 'v) World" where
  "Panic E logger args =
    and_then (Log E logger (PanicLevel E) args) (panic (Sprint E args))"

subsection \<open>Printf style\<close>

definition Logf ::
  "('d, 'v) Env \<Rightarrow> Sugar \<Rightarrow> Level \<Rightarrow> string \<Rightarrow> 'v list \<Rightarrow> ('d, 'v) World
   \<Rightarrow> Outcome \<times> ('d, 'v) World" where
  "Logf E logger lvl format args w =
    (let (status, w1) = call_IsLevelEnabled E (logr logger) lvl w
     in if Enabled status
        then (let (rec, w2) = call_NewLogRec lvl logger format args (Stacktrace status) w1
              in (Returns, call_enqueue E (logr logger) rec w2))
        else (Returns, w1))"

definition Tracef ::
  "('d, 'v) Env \<Rightarrow> Sugar \<Rightarrow> string \<Rightarrow> 'v list \<Rightarrow> ('d, 'v) World \<Rightarrow> Outcome \<times> ('d, 'v) World" where
  "Tracef E logger format args = Logf E logger (TraceLevel E) format args"

definition Debugf ::
  "('d, 'v) Env \<Rightarrow> Sugar \<Rightarrow> string \<Rightarrow> 'v list \<Rightarrow> ('d, 'v) World \<Rightarrow> Outcome \<times> ('d, 'v) World" where
  "Debugf E logger format args = Logf E logger (DebugLevel E) format args"

definition Infof ::
  "('d, 'v) Env \<Rightarrow> Sugar \<Rightarrow> string \<Rightarrow> 'v list \<Rightarrow> ('d, 'v) World \<Rightarrow> Outcome \<times> ('d, 'v) World" where
  "Infof E logger format args = Logf E logger (InfoLevel E) format args"

definition Printf ::
  "('d, 'v) Env \<Rightarrow> Sugar \<Rightarrow> string \<Rightarrow> 'v list \<Rightarrow> ('d, 'v) World \<Rightarrow> Outcome \<times> ('d, 'v) World" where
  "Printf E logger format args = Infof E logger format args"

definition Warnf ::
  "('d, 'v) Env \<Rightarrow> Sugar \<Rightarrow> string \<Rightarrow> 'v list \<Rightarrow> ('d, 'v) World \<Rightarrow> Outcome \<times> ('d, 'v) World" where
  "Warnf E logger format args = Logf E logger (WarnLevel E) format args"

definition Errorf ::
  "('d, 'v) Env \<Rightarrow> Sugar \<Rightarrow> string \<Rightarrow> 'v list \<Rightarrow> ('d, 'v) World \<Rightarrow> Outcome \<times> ('d, 'v) World" where
  "Errorf E logger format args = Logf E logger (ErrorLevel E) format args"

definition Fatalf ::
  "('d, 'v) Env \<Rightarrow> Sugar \<Rightarrow> string \<Rightarrow> 'v list \<Rightarrow> ('d, 'v) World \<Rightarrow> Outcome \<times> ('d, 'v) World" where
  "Fatalf E logger format args =
    and_then (Logf E logger (FatalLevel E) format args) (call_exit E (logr logger) 1)"

definition Panicf ::
  "('d, 'v) Env \<Rightarrow> Sugar \<Rightarrow> string \<Rightarrow> 'v list \<Rightarrow> ('d, 'v) World \<Rightarrow> Outcome \<times> ('d, 'v) World" where
  "Panicf E logger format args = Logf E logger (PanicLevel E) format args"

subsection \<open>Println style\<close>

definition Logln ::
  "('d, 'v) Env \<Rightarrow> Sugar \<Rightarrow> Level \<Rightarrow> 'v list \<Rightarrow> ('d, 'v) World \<Rightarrow> Outcome \<times> ('d, 'v) World" where
  "Logln E logger lvl args w =
    (let (status, w1) = call_IsLevelEnabled E (logr logger) lvl w
     in if Enabled status
        then (let (rec, w2) = call_NewLogRec lvl logger [] args (Stacktrace status) w1;
                  rec = rec\<lparr>newline := True\<rparr>
              in (Returns, call_enqueue E (logr logger) rec w2))
        else (Returns, w1))"

definition Traceln ::
  "('d, 'v) Env \<Rightarrow> Sugar \<Rightarrow> 'v list \<Rightarrow> ('d, 'v) World \<Rightarrow> Outcome \<times> ('d, 'v) World" where
  "Traceln E logger args = Logln E logger (TraceLevel E) args"

definition Debugln ::
  "('d, 'v) Env \<Rightarrow> Sugar \<Rightarrow> 'v list \<Rightarrow> ('d, 'v) World \<Rightarrow> Outcome \<times> ('d, 'v) World" where
  "Debugln E logger args = Logln E logger (DebugLevel E) args"

definition Infoln ::
  "('d, 'v) Env \<Rightarrow> Sugar \<Rightarrow> 'v list \<Rightarrow> ('d, 'v) World \<Rightarrow> Outcome \<times> ('d, 'v) World" where
  "Infoln E logger args = Logln E logger (InfoLevel E) args"

definition Println ::
  "('d, 'v) Env \<Rightarrow> Sugar \<Rightarrow> 'v list \<Rightarrow> ('d, 'v) World \<Rightarrow> Outcome \<times> ('d, 'v) World" where
  "Println E logger args = Infoln E logger args"

definition Warnln ::
  "('d, 'v) Env \<Rightarrow> Sugar \<Rightarrow> 'v list \<Rightarrow> ('d, 'v) World \<Rightarrow> Outcome \<times> ('d, 'v) World" where
  "Warnln E logger args = Logln E logger (WarnLevel E) args"

definition Errorln ::
  "('d, 'v) Env \<Rightarrow> Sugar \<Rightarrow> 'v list \<Rightarrow> ('d, 'v) World \<Rightarrow> Outcome \<times> ('d, 'v) World" where
  "Errorln E logger args = Logln E logger (ErrorLevel E) args"

definition Fatalln ::
  "('d, 'v) Env \<Rightarrow> Sugar \<Rightarrow> 'v list \<Rightarrow> ('d, 'v) World \<Rightarrow> Outcome \<times> ('d, 'v) World" where
  "Fatalln E logger args =
    and_then (Logln E logger (FatalLevel E) args) (call_exit E (logr logger) 1)"

definition Panicln ::
  "('d, 'v) Env \<Rightarrow> Sugar \<Rightarrow> 'v list \<Rightarrow> ('d, 'v) World \<Rightarrow> Outcome \<times> ('d, 'v) World" where
  "Panicln E logger args = Logln E logger (PanicLevel E) args"

subsection \<open>The funnel, stated on its own\<close>

text \<open>
  The calls that one logging call at level \<open>lvl\<close> is to make, in order, from the world
  \<open>w\<close>: \<open>IsLevelEnabled(lvl)\<close> on the logger's dispatcher first; then, exactly when the
  status it returns has \<open>Enabled\<close> set, \<open>NewLogRec\<close> with the returned stacktrace decision
  and \<open>enqueue\<close> of that record (with its line-join flag \<open>nl\<close>); nothing more otherwise.
\<close>

definition funnel ::
  "('d, 'v) Env \<Rightarrow> Sugar \<Rightarrow> Level \<Rightarrow> string \<Rightarrow> 'v list \<Rightarrow> bool \<Rightarrow> ('d, 'v) World
   \<Rightarrow> 'v Call list" where
  "funnel E logger lvl format args nl w =
    (let status = fst (IsLevelEnabled E lvl (logrs w (logr logger)));
         rec = (NewLogRec lvl logger format args (Stacktrace status))\<lparr>newline := nl\<rparr>
     in Call_IsLevelEnabled (logr logger) lvl #
        (if Enabled status
         then [Call_NewLogRec lvl logger format args (Stacktrace status),
               Call_enqueue (logr logger) rec]
         else []))"

text \<open>The dispatcher that the logging call at \<open>lvl\<close> leaves behind.\<close>

definition dispatched ::
  "('d, 'v) Env \<Rightarrow> Sugar \<Rightarrow> Level \<Rightarrow> string \<Rightarrow> 'v list \<Rightarrow> bool \<Rightarrow> 'd \<Rightarrow> 'd" where
  "dispatched E logger lvl format args nl d =
    (let (status, d1) = IsLevelEnabled E lvl d;
         rec = (NewLogRec lvl logger format args (Stacktrace status))\<lparr>newline := nl\<rparr>
     in if Enabled status then enqueue E rec d1 else d1)"

section \<open>The dispatcher and the explicit filter, after the spec\<close>

text \<open>
  The sources hold the front-end logger and tests that call the dispatcher, not the
  dispatcher itself: the types \<open>Logr\<close> and \<open>CustomFilter\<close>, the constant \<open>MaxLevelID\<close> and
  the methods \<open>Add\<close>, \<open>IsLevelEnabled\<close> and \<open>enqueue\<close> are missing. They are modelled here
  from the spec; the constant \<open>MaxLevelID\<close> is the parameter \<open>maxLevelID\<close>.
\<close>

text \<open>
  Modelled from the spec: what the error-reporting hook is invoked with, missing from the
  sources. After the spec's taxonomy: an invalid level id (with the id), a drop on a
  full queue (with the target's index and the level's id), logging after shutdown.
\<close>

datatype LogrError = InvalidLevelID nat | QueueFull nat nat | LoggingAfterShutdown

text \<open>
  Modelled from the spec: the explicit filter, whose type \<open>CustomFilter\<close> is missing from
  the sources. It "holds an insertion-order-irrelevant set of individually registered
  Levels (by id)": a map from ids to the registered levels.
\<close>

type_synonym CustomFilter = "nat \<Rightarrow> Level option"

text \<open>
  Modelled from the spec: the method \<open>CustomFilter.Add\<close>, missing from the sources.
  Registration accepts every level, one whose id exceeds \<open>MaxLevelID\<close> too ("it is not
  rejected at registration"), and does not fail.
\<close>

definition Add :: "Level list \<Rightarrow> CustomFilter \<Rightarrow> CustomFilter" where
  "Add levels f = fold (\<lambda>s m. m(ID s \<mapsto> s)) levels f"

text \<open>
  Modelled from the spec: the result of \<open>Filter.Evaluate\<close>, "{enabled: bool,
  needsStacktrace: bool, error: optional}".
\<close>

record EvalResult =
  enabled :: bool
  needsStacktrace :: bool
  err :: "LogrError option"

text \<open>
  Modelled from the spec: \<open>Filter.Evaluate\<close> of the explicit filter, missing from the
  sources. "A candidate is enabled only if its id is in the set, in which case stacktrace
  requirement is taken from that Level's defaultStacktrace flag"; on a registered level
  whose id exceeds \<open>MaxLevelID\<close> it "returns error = InvalidLevelID and enabled = false".
\<close>

definition Evaluate :: "nat \<Rightarrow> CustomFilter \<Rightarrow> Level \<Rightarrow> EvalResult" where
  "Evaluate maxLevelID f lvl =
    (case f (ID lvl) of
       None \<Rightarrow> \<lparr>enabled = False, needsStacktrace = False, err = None\<rparr>
     | Some r \<Rightarrow>
         if maxLevelID < ID lvl
         then \<lparr>enabled = False, needsStacktrace = False, err = Some (InvalidLevelID (ID lvl))\<rparr>
         else \<lparr>enabled = True, needsStacktrace = defaultStacktrace r, err = None\<rparr>)"

text \<open>
  Modelled from the spec: a target, missing from the sources, as far as the dispatcher
  reaches it: its filter, its bounded FIFO queue and the queue's capacity (the worker,
  the formatter and the writer that consume the queue are not modelled).
\<close>

record 'v Target =
  filter_t :: CustomFilter
  queue :: "'v LogRec list"
  capacity :: nat

datatype OfferOutcome = Accepted | Dropped | Rejected

text \<open>
  Modelled from the spec: \<open>Target.Offer\<close>, missing from the sources. "Rejected means the
  filter did not want this level. Accepted means the record was placed on the queue.
  Dropped means the filter wanted the record but the queue was full."
\<close>

definition Offer :: "nat \<Rightarrow> 'v LogRec \<Rightarrow> 'v Target \<Rightarrow> OfferOutcome \<times> 'v Target" where
  "Offer maxLevelID rec t =
    (if \<not> enabled (Evaluate maxLevelID (filter_t t) (level rec)) then (Rejected, t)
     else if length (queue t) < capacity t then (Accepted, t\<lparr>queue := queue t @ [rec]\<rparr>)
     else (Dropped, t))"

text \<open>
  Modelled from the spec: the dispatcher \<open>Logr\<close>, missing from the sources: its targets,
  the errors handed to the error-reporting hook so far (in order), and whether
  \<open>Shutdown\<close> has been invoked.
\<close>

record 'v Logr =
  targets :: "'v Target list"
  reported :: "LogrError list"
  shutdown :: bool

text \<open>
  Modelled from the spec: \<open>Logr.IsLevelEnabled\<close>, missing from the sources. It "evaluates
  the level against every registered target's filter and returns the logical OR of
  enabled and the logical OR of needs stacktrace among targets that are enabled for this
  level"; an error of the evaluation is routed "to the error-reporting hook exactly once
  per offending log call".
\<close>

definition Logr_IsLevelEnabled :: "nat \<Rightarrow> Level \<Rightarrow> 'v Logr \<Rightarrow> LevelStatus \<times> 'v Logr" where
  "Logr_IsLevelEnabled maxLevelID lvl d =
    (let rs = map (\<lambda>t. Evaluate maxLevelID (filter_t t) lvl) (targets d);
         status = \<lparr>Enabled = list_ex enabled rs,
                   Stacktrace = list_ex (\<lambda>r. enabled r \<and> needsStacktrace r) rs\<rparr>
     in case List.map_filter err rs of
          [] \<Rightarrow> (status, d)
        | e # es \<Rightarrow> (status, d\<lparr>reported := reported d @ [e]\<rparr>))"

text \<open>Offering a record to the targets in turn; \<open>i\<close> is the index of the first of them.\<close>

fun offer_all ::
  "nat \<Rightarrow> 'v LogRec \<Rightarrow> nat \<Rightarrow> 'v Target list \<Rightarrow> 'v Target list \<times> LogrError list" where
  "offer_all maxLevelID rec i [] = ([], [])"
| "offer_all maxLevelID rec i (t # ts) =
    (let (out, t') = Offer maxLevelID rec t;
         (ts', es) = offer_all maxLevelID rec (Suc i) ts
     in (t' # ts', (if out = Dropped then [QueueFull i (ID (level rec))] else []) @ es))"

text \<open>
  Modelled from the spec: \<open>Logr.enqueue\<close>, missing from the sources. It "re-evaluates each
  target's filter and calls Target.Offer for each target whose filter currently accepts
  the level; any Dropped outcome is forwarded to the error-reporting hook"; after
  shutdown a logging call is reported and is a no-op.
\<close>

definition Logr_enqueue :: "nat \<Rightarrow> 'v LogRec \<Rightarrow> 'v Logr \<Rightarrow> 'v Logr" where
  "Logr_enqueue maxLevelID rec d =
    (if shutdown d then d\<lparr>reported := reported d @ [LoggingAfterShutdown]\<rparr>
     else (let (ts, es) = offer_all maxLevelID rec 0 (targets d)
           in d\<lparr>targets := ts, reported := reported d @ es\<rparr>))"

text \<open>The logging calls on this dispatcher: any environment, with these two methods.\<close>

definition on_Logr :: "nat \<Rightarrow> ('v Logr, 'v) Env \<Rightarrow> ('v Logr, 'v) Env" where
  "on_Logr maxLevelID E =
    E\<lparr>IsLevelEnabled := Logr_IsLevelEnabled maxLevelID, enqueue := Logr_enqueue maxLevelID\<rparr>"

subsection \<open>The levels of the tests\<close>

text \<open>\<open>LoginLevel\<close>, \<open>LogoutLevel\<close> and \<open>BadLevel\<close> of \<open>levelcustom_test.go\<close>.\<close>

definition LoginLevel :: Level where
  "LoginLevel = \<lparr>ID = 100, Name = ''login '', defaultStacktrace = False\<rparr>"

definition LogoutLevel :: Level where
  "LogoutLevel = \<lparr>ID = 101, Name = ''logout'', defaultStacktrace = False\<rparr>"

definition BadLevel :: "nat \<Rightarrow> Level" where
  "BadLevel maxLevelID = \<lparr>ID = maxLevelID + 1, Name = ''invalid'', defaultStacktrace = False\<rparr>"

subsection \<open>A dispatcher as the tests set it up\<close>

text \<open>
  For concrete evaluations: a dispatcher with one target of queue size 1000 (as
  \<open>NewWriterTarget(filter, formatter, buf, 1000)\<close> makes it) and nothing reported, a
  world that holds it, a logger on it, and an environment whose built-in levels carry
  sample ids (the arguments of the calls are numbers). \<open>bad_World\<close> is the set-up of
  \<open>TestLevelIDTooLarge\<close> with 255 for \<open>MaxLevelID\<close>, \<open>custom_World\<close> that of \<open>TestCustomLevel\<close>.
\<close>

definition test_Target :: "CustomFilter \<Rightarrow> nat Target" where
  "test_Target f = \<lparr>filter_t = f, queue = [], capacity = 1000\<rparr>"

definition test_Logr :: "CustomFilter \<Rightarrow> nat Logr" where
  "test_Logr f = \<lparr>targets = [test_Target f], reported = [], shutdown = False\<rparr>"

definition test_World :: "CustomFilter \<Rightarrow> (nat Logr, nat) World" where
  "test_World f = \<lparr>logrs = (\<lambda>p. test_Logr f), calls = []\<rparr>"

definition test_logger :: Sugar where
  "test_logger = \<lparr>logr = 0, fields_ref = Some 0\<rparr>"

definition test_Env :: "(nat Logr, nat) Env" where
  "test_Env =
    \<lparr>IsLevelEnabled = (\<lambda>lvl d. (\<lparr>Enabled = False, Stacktrace = False\<rparr>, d)),
     enqueue = (\<lambda>rec d. d),
     exit = (\<lambda>code d. None),
     Sprint = (\<lambda>args. []),
     TraceLevel = \<lparr>ID = 6, Name = ''trace'', defaultStacktrace = False\<rparr>,
     DebugLevel = \<lparr>ID = 5, Name = ''debug'', defaultStacktrace = False\<rparr>,
     InfoLevel = \<lparr>ID = 4, Name = ''info'', defaultStacktrace = False\<rparr>,
     WarnLevel = \<lparr>ID = 3, Name = ''warn'', defaultStacktrace = False\<rparr>,
     ErrorLevel = \<lparr>ID = 2, Name = ''error'', defaultStacktrace = False\<rparr>,
     FatalLevel = \<lparr>ID = 1, Name = ''fatal'', defaultStacktrace = False\<rparr>,
     PanicLevel = \<lparr>ID = 0, Name = ''panic'', defaultStacktrace = False\<rparr>\<rparr>"

definition bad_World :: "(nat Logr, nat) World" where
  "bad_World = test_World (Add [BadLevel 255] Map.empty)"

definition custom_World :: "(nat Logr, nat) World" where
  "custom_World = test_World (Add [LoginLevel, LogoutLevel] Map.empty)"

section \<open>The JSON formatter (package format)\<close>

subsection \<open>Fields, slices and the encoder\<close>

text \<open>
  The formatter reads \<open>logr.Field\<close> values through \<open>Key\<close>, \<open>Type\<close> and \<open>Integer\<close>; the
  struct and the constants of \<open>logr.FieldType\<close> are not in the sources, so the record has
  the fields that are read and the datatype the constants that \<open>encodeField\<close> names, with
  \<open>OtherType\<close> for any further value of the type.
\<close>

datatype FieldType =
  UnknownType | ArrayMarshalerType | ObjectMarshalerType | BinaryType | BoolType
| ByteStringType | Complex128Type | Complex64Type | DurationType | Float64Type | Float32Type
| Int64Type | Int32Type | Int16Type | Int8Type | StringType | TimeType | TimeFullType
| Uint64Type | Uint32Type | Uint16Type | Uint8Type | UintptrType | ReflectType
| NamespaceType | StringerType | ErrorType | SkipType | OtherType

record Field =
  Key :: string
  Type :: FieldType
  Integer :: int

text \<open>The zero value of \<open>Field\<close>, which \<open>make\<close> fills a new slice with.\<close>

definition zero_Field :: Field where
  "zero_Field = \<lparr>Key = [], Type = UnknownType, Integer = 0\<rparr>"

text \<open>
  A slice is a window on a backing array: the array's address in the store, the offset
  of the window and its length. Two slices on one array share its elements, which is
  what a property about mutation depends on. A nil or empty slice has length 0.
\<close>

type_synonym 'a ArrayStore = "'a list list"

record Slice =
  s_arr :: nat
  s_off :: nat
  s_len :: nat

definition valid_slice :: "'a ArrayStore \<Rightarrow> Slice \<Rightarrow> bool" where
  "valid_slice h s =
    (s_len s = 0 \<or> (s_arr s < length h \<and> s_off s + s_len s \<le> length (h ! s_arr s)))"

text \<open>The elements of a slice, in order.\<close>

definition elems :: "'a ArrayStore \<Rightarrow> Slice \<Rightarrow> 'a list" where
  "elems h s = take (s_len s) (drop (s_off s) (h ! s_arr s))"

text \<open>Overwriting the first \<open>length xs\<close> elements of a slice, in its backing array.\<close>

definition store_elems :: "Slice \<Rightarrow> 'a list \<Rightarrow> 'a ArrayStore \<Rightarrow> 'a ArrayStore" where
  "store_elems s xs h =
    h[s_arr s := take (s_off s) (h ! s_arr s) @ xs @ drop (s_off s + length xs) (h ! s_arr s)]"

text \<open>\<open>make([]T, n)\<close>: a new backing array of \<open>n\<close> zero values at a fresh address.\<close>

definition make_slice :: "'a \<Rightarrow> nat \<Rightarrow> 'a ArrayStore \<Rightarrow> Slice \<times> 'a ArrayStore" where
  "make_slice zero n h = (\<lparr>s_arr = length h, s_off = 0, s_len = n\<rparr>, h @ [replicate n zero])"

text \<open>\<open>copy(dst, src)\<close>: the first \<open>min(len(dst), len(src))\<close> elements of \<open>src\<close> go to \<open>dst\<close>.\<close>

definition copy_slice :: "Slice \<Rightarrow> Slice \<Rightarrow> 'a ArrayStore \<Rightarrow> 'a ArrayStore" where
  "copy_slice dst src h = store_elems dst (take (min (s_len dst) (s_len src)) (elems h src)) h"

text \<open>
  \<open>sort.Slice(s, less)\<close> of the Go library sorts the elements of \<open>s\<close> in place (the
  comparison \<open>less\<close> is \<open>lessf\<close> here). Which
  sorted arrangement it leaves is the library's matter (it is not stable), so the
  rearrangement is a parameter \<open>sortSlice\<close>, a function from the comparison and the
  elements to the rearranged elements.
\<close>

definition sort_Slice ::
  "(('a \<Rightarrow> 'a \<Rightarrow> bool) \<Rightarrow> 'a list \<Rightarrow> 'a list) \<Rightarrow> Slice \<Rightarrow> ('a \<Rightarrow> 'a \<Rightarrow> bool) \<Rightarrow> 'a ArrayStore
   \<Rightarrow> 'a ArrayStore" where
  "sort_Slice sortSlice s lessf h = store_elems s (sortSlice lessf (elems h s)) h"

text \<open>What the library promises of \<open>sort.Slice\<close> for the comparison of keys: the result
  is a rearrangement of the elements, in non-descending order of their keys.\<close>

definition less_Key :: "Field \<Rightarrow> Field \<Rightarrow> bool" where
  "less_Key a b = (Key a < Key b)"

definition sorts_by_Key :: "((Field \<Rightarrow> Field \<Rightarrow> bool) \<Rightarrow> Field list \<Rightarrow> Field list) \<Rightarrow> bool" where
  "sorts_by_Key sortSlice =
    (\<forall>xs. mset (sortSlice less_Key xs) = mset xs
        \<and> sorted_wrt (\<lambda>a b. Key a \<le> Key b) (sortSlice less_Key xs))"

text \<open>An instance for concrete evaluations: sorting by insertion.\<close>

fun insert_by :: "('a \<Rightarrow> 'a \<Rightarrow> bool) \<Rightarrow> 'a \<Rightarrow> 'a list \<Rightarrow> 'a list" where
  "insert_by lessf x [] = [x]"
| "insert_by lessf x (y # ys) = (if lessf y x then y # insert_by lessf x ys else x # y # ys)"

fun insertion_sort :: "('a \<Rightarrow> 'a \<Rightarrow> bool) \<Rightarrow> 'a list \<Rightarrow> 'a list" where
  "insertion_sort lessf [] = []"
| "insertion_sort lessf (x # xs) = insert_by lessf x (insertion_sort lessf xs)"

text \<open>
  The calls made on the \<open>gojay\<close> encoder, which add the members of the JSON object in
  order. Times are numbers; a stack frame is its function, file and line.
\<close>

record Frame =
  Function :: string
  File :: string
  Line :: int

datatype EncCall =
  AddTimeKey string int string
| AddStringKey string string
| AddBoolKey string bool
| AddObjectKey string "EncCall list"
| AddArrayKey string "Frame list"

text \<open>The key under which a call adds its member.\<close>

fun key_of :: "EncCall \<Rightarrow> string" where
  "key_of (AddTimeKey k t f) = k"
| "key_of (AddStringKey k s) = k"
| "key_of (AddBoolKey k b) = k"
| "key_of (AddObjectKey k ms) = k"
| "key_of (AddArrayKey k fs) = k"

subsection \<open>The formatter and its record\<close>

text \<open>
  The struct \<open>JSON\<close>. \<open>ContextSorter\<close> is a function that may allocate and write, so it
  takes and returns the store; nil is \<open>None\<close>. \<open>once\<close> holds whether \<open>once.Do\<close> has run.
\<close>

record JSON =
  DisableTimestamp :: bool
  DisableLevel :: bool
  DisableMsg :: bool
  DisableContext :: bool
  DisableStacktrace :: bool
  TimestampFormat :: string
  Indent :: string
  EscapeHTML :: bool
  KeyTimestamp :: string
  KeyLevel :: string
  KeyMsg :: string
  KeyContextFields :: string
  KeyStacktrace :: string
  ContextSorter :: "(Slice \<Rightarrow> Field ArrayStore \<Rightarrow> Slice \<times> Field ArrayStore) option"
  once :: bool

text \<open>
  What the formatter reads of a \<open>logr.LogRec\<close>, whose accessors are not in the sources:
  the values of \<open>Time()\<close>, \<open>Level()\<close>, \<open>Msg()\<close>, \<open>Fields()\<close> (a slice on the record's own
  array of fields) and \<open>StackFrames()\<close>.
\<close>

record RecView =
  rec_Time :: int
  rec_Level :: Level
  rec_Msg :: string
  rec_Fields :: Slice
  rec_StackFrames :: "Frame list"

text \<open>Outside the sources and taken as parameters: the constant
  \<open>logr.DefTimestampFormat\<close>, \<open>fmt.Sprintf("%v", _)\<close> and the rearrangement of \<open>sort.Slice\<close>.\<close>

record FmtEnv =
  DefTimestampFormat :: string
  Sprintf_v :: "Field \<Rightarrow> string"
  sortSlice :: "(Field \<Rightarrow> Field \<Rightarrow> bool) \<Rightarrow> Field list \<Rightarrow> Field list"

definition applyDefaultKeyNames :: "JSON \<Rightarrow> JSON" where
  "applyDefaultKeyNames j =
    (let j = (if KeyTimestamp j = [] then j\<lparr>KeyTimestamp := ''timestamp''\<rparr> else j);
         j = (if KeyLevel j = [] then j\<lparr>KeyLevel := ''level''\<rparr> else j);
         j = (if KeyMsg j = [] then j\<lparr>KeyMsg := ''msg''\<rparr> else j);
         j = (if KeyStacktrace j = [] then j\<lparr>KeyStacktrace := ''stacktrace''\<rparr> else j)
     in j)"

definition defaultContextSorter ::
  "FmtEnv \<Rightarrow> Slice \<Rightarrow> Field ArrayStore \<Rightarrow> Slice \<times> Field ArrayStore" where
  "defaultContextSorter E flds h =
    (let (sorted, h) = make_slice zero_Field (s_len flds) h;
         h = copy_slice sorted flds h;
         h = sort_Slice (sortSlice E) sorted less_Key h
     in (sorted, h))"

function prefixCollision :: "JSON \<Rightarrow> string \<Rightarrow> string" where
  "prefixCollision j key =
    (if key = KeyTimestamp j \<or> key = KeyLevel j \<or> key = KeyMsg j \<or> key = KeyStacktrace j
     then prefixCollision j (CHR ''_'' # key)
     else key)"
  by pat_completeness auto
termination
  by (relation "measure (\<lambda>(j, key).
        Suc (max (max (length (KeyTimestamp j)) (length (KeyLevel j)))
                 (max (length (KeyMsg j)) (length (KeyStacktrace j)))) - length key)")
     auto

text \<open>
  \<open>encodeField\<close>, as far as it is written: the arms of \<open>UnknownType\<close> and \<open>BoolType\<close> add
  a member, the arm of \<open>ArrayMarshalerType\<close> breaks off after \<open>enc.\<close>, the other arms of
  named field types are empty, and the last arm (\<open>default\<close>) adds the value as
  \<open>fmt.Sprintf\<close> prints it. The arms between \<open>SkipType\<close> and \<open>default\<close> name Go types, which
  no field type equals. \<open>bool(field.Integer)\<close> is read as "not zero".
\<close>

definition encodeField :: "FmtEnv \<Rightarrow> string \<Rightarrow> Field \<Rightarrow> EncCall list" where
  "encodeField E key field =
    (case Type field of
       UnknownType \<Rightarrow> [AddStringKey (Key field) ''UnknownType'']
     | BoolType \<Rightarrow> [AddBoolKey key (Integer field \<noteq> 0)]
     | OtherType \<Rightarrow> [AddStringKey key (Sprintf_v E field)]
     | _ \<Rightarrow> [])"

text \<open>\<open>jsonFields.MarshalJSONObject\<close>: the members of the object that groups the context.\<close>

definition jsonFields :: "FmtEnv \<Rightarrow> Field list \<Rightarrow> EncCall list" where
  "jsonFields E f = concat (map (\<lambda>ctxField. encodeField E (Key ctxField) ctxField) f)"

text \<open>
  \<open>JSONLogRec.MarshalJSONObject\<close>: the members of the record's object, and the store as
  the sorter leaves it.
\<close>

definition MarshalJSONObject ::
  "FmtEnv \<Rightarrow> JSON \<Rightarrow> RecView \<Rightarrow> bool \<Rightarrow> (Slice \<Rightarrow> Field ArrayStore \<Rightarrow> Slice \<times> Field ArrayStore)
   \<Rightarrow> Field ArrayStore \<Rightarrow> EncCall list \<times> Field ArrayStore" where
  "MarshalJSONObject E j rec stacktrace sorter h =
    (let ts = (if \<not> DisableTimestamp j
               then [AddTimeKey (KeyTimestamp j) (rec_Time rec)
                       (if TimestampFormat j = [] then DefTimestampFormat E else TimestampFormat j)]
               else []);
         lv = (if \<not> DisableLevel j then [AddStringKey (KeyLevel j) (Name (rec_Level rec))] else []);
         ms = (if \<not> DisableMsg j then [AddStringKey (KeyMsg j) (rec_Msg rec)] else []);
         (cx, h) =
           (if \<not> DisableContext j
            then (let (ctxFields, h) = sorter (rec_Fields rec) h
                  in if KeyContextFields j \<noteq> []
                     then ([AddObjectKey (KeyContextFields j) (jsonFields E (elems h ctxFields))], h)
                     else if 0 < s_len ctxFields
                     then (concat (map (\<lambda>cf. encodeField E (prefixCollision j (Key cf)) cf)
                                     (elems h ctxFields)), h)
                     else ([], h))
            else ([], h));
         st = (if stacktrace \<and> \<not> DisableStacktrace j
               then (let frames = rec_StackFrames rec
                     in if 0 < length frames then [AddArrayKey (KeyStacktrace j) frames] else [])
               else [])
     in (ts @ lv @ ms @ cx @ st, h))"

text \<open>
  \<open>JSON.Format\<close> for a record that is not nil: the default key names are applied the
  first time, the sorter is chosen, and the encoder is given the members; the result is
  the members (the bytes that \<open>gojay\<close> makes of them, and the newline after them, are
  not modelled), the formatter and the store.
\<close>

definition Format ::
  "FmtEnv \<Rightarrow> JSON \<Rightarrow> RecView \<Rightarrow> bool \<Rightarrow> Field ArrayStore \<Rightarrow> EncCall list \<times> JSON \<times> Field ArrayStore" where
  "Format E j rec stacktrace h =
    (let j = (if once j then j else (applyDefaultKeyNames j)\<lparr>once := True\<rparr>);
         sorter = (case ContextSorter j of None \<Rightarrow> defaultContextSorter E | Some f \<Rightarrow> f);
         (members, h) = MarshalJSONObject E j rec stacktrace sorter h
     in (members, j, h))"

text \<open>What the doc comment of \<open>ContextSorter\<close> asks of a sorter: "a new slice must be
  returned and the original unmodified"; here, no array of the store is modified.\<close>

definition keeps_store :: "(Slice \<Rightarrow> Field ArrayStore \<Rightarrow> Slice \<times> Field ArrayStore) \<Rightarrow> bool" where
  "keeps_store f = (\<forall>s h. take (length h) (snd (f s h)) = h)"

declare prefixCollision.simps [simp del]

subsection \<open>A formatter and a record for concrete evaluations\<close>

text \<open>
  The formatter \<open>&format.JSON{}\<close> (every field zero), an environment that sorts by
  insertion, and a record whose array of fields is at address 0 of the store.
\<close>

definition test_FmtEnv :: FmtEnv where
  "test_FmtEnv =
    \<lparr>DefTimestampFormat = ''2006-01-02 15:04:05.000 Z07:00'', Sprintf_v = (\<lambda>f. Key f),
     sortSlice = insertion_sort\<rparr>"

definition test_JSON :: JSON where
  "test_JSON =
    \<lparr>DisableTimestamp = False, DisableLevel = False, DisableMsg = False,
     DisableContext = False, DisableStacktrace = False, TimestampFormat = [], Indent = [],
     EscapeHTML = False, KeyTimestamp = [], KeyLevel = [], KeyMsg = [], KeyContextFields = [],
     KeyStacktrace = [], ContextSorter = None, once = False\<rparr>"

definition test_Rec :: "nat \<Rightarrow> RecView" where
  "test_Rec n =
    \<lparr>rec_Time = 0, rec_Level = LoginLevel, rec_Msg = ''hello'',
     rec_Fields = \<lparr>s_arr = 0, s_off = 0, s_len = n\<rparr>, rec_StackFrames = []\<rparr>"

definition test_fields :: "Field list" where
  "test_fields = [\<lparr>Key = ''user'', Type = BoolType, Integer = 1\<rparr>,
                  \<lparr>Key = ''role'', Type = UnknownType, Integer = 0\<rparr>]"

section \<open>Properties of the front-end logger's field maps\<close>

subsection \<open>The store operations\<close>

lemma length_assign: "length (assign a k v h) = length h"
  by (simp add: assign_def)

lemma length_range_assign: "length (range_assign kvs a h) = length h"
  by (induction kvs a h rule: range_assign.induct) (simp_all add: length_assign)

lemma range_assign_eq:
  "a < length h \<Longrightarrow>
   range_assign kvs a h = h[a := fold (\<lambda>(k, v). AList.update k v) kvs (h ! a)]"
proof (induction kvs a h rule: range_assign.induct)
  case (1 a h)
  then show ?case by simp
next
  case (2 k v kvs a h)
  then show ?case by (simp add: assign_def)
qed

text \<open>Writing the entries of a map object (each key once) into another one overlays it.\<close>

lemma map_of_fold_update:
  "distinct (map fst kvs) \<Longrightarrow>
   map_of (fold (\<lambda>(k, v). AList.update k v) kvs m) = map_of m ++ map_of kvs"
proof (induction kvs arbitrary: m)
  case Nil
  then show ?case by simp
next
  case (Cons p kvs)
  obtain k v where p: "p = (k, v)" by (cases p)
  from Cons.prems p have notin: "map_of kvs k = None"
    by (simp add: map_of_eq_None_iff)
  from Cons.prems have d: "distinct (map fst kvs)" by simp
  have "map_of (fold (\<lambda>(k, v). AList.update k v) (p # kvs) m)
      = map_of (AList.update k v m) ++ map_of kvs"
    using Cons.IH [OF d] p by simp
  also have "\<dots> = (map_of m)(k \<mapsto> v) ++ map_of kvs"
    by (simp add: update_conv')
  also have "\<dots> = map_of m ++ map_of (p # kvs)"
    using notin p by (auto simp: map_add_def fun_eq_iff split: option.splits)
  finally show ?case .
qed

lemma WithFields_empty:
  "deref h (fields_ref p) = [] \<Longrightarrow>
   WithFields p m h = (\<lparr>logr = logr p, fields_ref = m\<rparr>, h)"
  by (simp add: WithFields_def len_def)

lemma WithFields_nonempty:
  assumes "deref h (fields_ref p) \<noteq> []" "valid_ref h (fields_ref p)" "valid_ref h m"
  shows "WithFields p m h =
    (\<lparr>logr = logr p, fields_ref = Some (length h)\<rparr>,
     h @ [fold (\<lambda>(k, v). AList.update k v) (deref h m)
            (fold (\<lambda>(k, v). AList.update k v) (deref h (fields_ref p)) [])])"
proof -
  have a: "deref (h @ [[]]) (fields_ref p) = deref h (fields_ref p)"
    using assms(2) by (auto simp: deref_def valid_ref_def nth_append split: option.splits)
  let ?h2 = "range_assign (deref h (fields_ref p)) (length h) (h @ [[]])"
  have h2: "?h2 = h @ [fold (\<lambda>(k, v). AList.update k v) (deref h (fields_ref p)) []]"
    by (simp add: range_assign_eq)
  have b: "deref ?h2 m = deref h m"
    unfolding h2 using assms(3)
    by (auto simp: deref_def valid_ref_def nth_append split: option.splits)
  show ?thesis
    using assms(1) by (simp add: WithFields_def len_def make_map_def a b) (simp add: h2 range_assign_eq)
qed

lemma deref_append: "valid_ref h r \<Longrightarrow> deref (h @ xs) r = deref h r"
  by (auto simp: deref_def valid_ref_def nth_append split: option.splits)

lemma WithFields_contents:
  assumes "valid_ref h (fields_ref p)" "valid_ref h m"
    and "distinct (map fst (deref h (fields_ref p)))" "distinct (map fst (deref h m))"
    and "WithFields p m h = (c, h')"
  shows "map_of (deref h' (fields_ref c)) = map_of (deref h (fields_ref p)) ++ map_of (deref h m)"
proof (cases "deref h (fields_ref p) = []")
  case True
  with assms(5) show ?thesis by (auto simp: WithFields_empty)
next
  case False
  from WithFields_nonempty [OF False assms(1,2)] assms(5)
  have c: "fields_ref c = Some (length h)"
    and h': "h' = h @ [fold (\<lambda>(k, v). AList.update k v) (deref h m)
            (fold (\<lambda>(k, v). AList.update k v) (deref h (fields_ref p)) [])]"
    by auto
  have "deref h' (fields_ref c) = fold (\<lambda>(k, v). AList.update k v) (deref h m)
            (fold (\<lambda>(k, v). AList.update k v) (deref h (fields_ref p)) [])"
    by (simp add: c h' deref_def)
  then show ?thesis
    by (simp add: map_of_fold_update assms(3,4))
qed

lemma WithFields_frame:
  assumes "valid_ref h (fields_ref p)" "valid_ref h m" "WithFields p m h = (c, h')"
  shows "take (length h) h' = h \<and> logr c = logr p"
proof (cases "deref h (fields_ref p) = []")
  case True
  with assms(3) show ?thesis by (auto simp: WithFields_empty)
next
  case False
  from WithFields_nonempty [OF False assms(1,2)] assms(3) show ?thesis by auto
qed

lemma map_of_assign_same:
  "a < length h \<Longrightarrow> map_of (deref (assign a k v h) (Some a)) k = Some v"
  by (simp add: deref_def assign_def update_conv')

subsection \<open>WithFields overlays and leaves the parent alone\<close>

text \<open>
  Claim C2. For a logger \<open>p\<close> and a field map \<open>m\<close> (references into a store whose map
  objects hold each key once), \<open>p.WithFields(m)\<close> returns a logger \<open>c\<close> on the same
  dispatcher whose field set is \<open>p\<close>'s overlaid with \<open>m\<close>, the entries of \<open>m\<close> winning;
  every map object that existed before the call, \<open>p\<close>'s among them, is as it was; no
  map object is allocated when \<open>p\<close> has no fields (one is otherwise).
  \<open>p.WithField(k, v)\<close> yields \<open>p\<close>'s fields with \<open>k\<close> set to \<open>v\<close>, and leaves \<open>p\<close>'s alone.
\<close>

theorem WithFields_overlay:
  assumes "valid_ref h (fields_ref p)" and "valid_ref h m"
    and "distinct (map fst (deref h (fields_ref p)))" and "distinct (map fst (deref h m))"
    and "WithFields p m h = (c, h')"
    and "WithField p k v h = (c1, h1)"
  shows "map_of (deref h' (fields_ref c)) = map_of (deref h (fields_ref p)) ++ map_of (deref h m)
       \<and> logr c = logr p
       \<and> take (length h) h' = h
       \<and> deref h' (fields_ref p) = deref h (fields_ref p)
       \<and> (if len h (fields_ref p) = 0 then h' = h else length h' = Suc (length h))
       \<and> map_of (deref h1 (fields_ref c1)) = (map_of (deref h (fields_ref p)))(k \<mapsto> v)
       \<and> logr c1 = logr p
       \<and> deref h1 (fields_ref p) = deref h (fields_ref p)"
proof -
  have frame: "take (length h) h' = h \<and> logr c = logr p"
    by (rule WithFields_frame [OF assms(1,2,5)])
  then obtain r where h': "h' = h @ r"
    by (metis append_take_drop_id)
  have parent: "deref h' (fields_ref p) = deref h (fields_ref p)"
    unfolding h' by (rule deref_append [OF assms(1)])
  have alloc: "if len h (fields_ref p) = 0 then h' = h else length h' = Suc (length h)"
  proof (cases "deref h (fields_ref p) = []")
    case True
    with assms(5) show ?thesis by (auto simp: WithFields_empty len_def)
  next
    case False
    from WithFields_nonempty [OF False assms(1,2)] assms(5) False show ?thesis
      by (auto simp: len_def)
  qed
  let ?g = "h @ [[(k, v)]]"
  have v1: "valid_ref ?g (fields_ref p)" and v2: "valid_ref ?g (Some (length h))"
    using assms(1) by (auto simp: valid_ref_def split: option.splits)
  have dp: "deref ?g (fields_ref p) = deref h (fields_ref p)"
    by (rule deref_append [OF assms(1)])
  have dm: "deref ?g (Some (length h)) = [(k, v)]"
    by (simp add: deref_def)
  have w: "WithFields p (Some (length h)) ?g = (c1, h1)"
    using assms(6) by (simp add: WithField_def)
  have "map_of (deref h1 (fields_ref c1))
      = map_of (deref ?g (fields_ref p)) ++ map_of (deref ?g (Some (length h)))"
    by (rule WithFields_contents [OF v1 v2 _ _ w]) (simp_all add: dp dm assms(3))
  then have one: "map_of (deref h1 (fields_ref c1)) = (map_of (deref h (fields_ref p)))(k \<mapsto> v)"
    by (simp add: dp dm)
  have frame1: "take (length ?g) h1 = ?g \<and> logr c1 = logr p"
    by (rule WithFields_frame [OF v1 v2 w])
  then obtain r1 where h1: "h1 = ?g @ r1"
    by (metis append_take_drop_id)
  have parent1: "deref h1 (fields_ref p) = deref h (fields_ref p)"
    unfolding h1 using deref_append [OF assms(1), of "[(k, v)] # r1"] by simp
  from WithFields_contents [OF assms(1-5)] frame parent alloc one frame1 parent1
  show ?thesis by simp
qed

theorem WithFields_overlay_witness:
  "valid_ref ex_maps (fields_ref ex_parent) \<and> valid_ref ex_maps (Some 1)
 \<and> distinct (map fst (deref ex_maps (fields_ref ex_parent)))
 \<and> distinct (map fst (deref ex_maps (Some 1)))
 \<and> map_of (deref (snd (WithFields ex_parent (Some 1) ex_maps))
              (fields_ref (fst (WithFields ex_parent (Some 1) ex_maps)))) ''a'' = Some 2
 \<and> map_of (deref (snd (WithFields ex_parent (Some 1) ex_maps))
              (fields_ref (fst (WithFields ex_parent (Some 1) ex_maps)))) ''b'' = Some 3
 \<and> deref (snd (WithFields ex_parent (Some 1) ex_maps)) (fields_ref ex_parent) = [(''a'', 1)]
 \<and> map_of (deref (snd (WithField ex_parent ''c'' 4 ex_maps))
              (fields_ref (fst (WithField ex_parent ''c'' 4 ex_maps)))) ''c'' = Some 4
 \<and> map_of (deref (snd (WithField ex_parent ''c'' 4 ex_maps))
              (fields_ref (fst (WithField ex_parent ''c'' 4 ex_maps)))) ''a'' = Some 1"
proof -
  have v1: "valid_ref ex_maps (fields_ref ex_parent)" and v2: "valid_ref ex_maps (Some 1)"
    by (simp_all add: valid_ref_def ex_maps_def ex_parent_def)
  have d1: "distinct (map fst (deref ex_maps (fields_ref ex_parent)))"
    and d2: "distinct (map fst (deref ex_maps (Some 1)))"
    by (simp_all add: deref_def ex_maps_def ex_parent_def)
  have e1: "WithFields ex_parent (Some 1) ex_maps
      = (fst (WithFields ex_parent (Some 1) ex_maps), snd (WithFields ex_parent (Some 1) ex_maps))"
    and e2: "WithField ex_parent ''c'' 4 ex_maps
      = (fst (WithField ex_parent ''c'' 4 ex_maps), snd (WithField ex_parent ''c'' 4 ex_maps))"
    by simp_all
  have p: "deref ex_maps (fields_ref ex_parent) = [(''a'', 1)]"
    and m: "deref ex_maps (Some (Suc 0)) = [(''a'', 2), (''b'', 3)]"
    by (simp_all add: deref_def ex_maps_def ex_parent_def)
  from WithFields_overlay [OF v1 v2 d1 d2 e1 e2] v1 v2 d1 d2 show ?thesis
    by (simp add: p m)
qed

subsection \<open>WithFields hands the caller's map on when the parent has no fields\<close>

text \<open>
  Claim C9. When the parent \<open>p\<close> has no fields, the child's field set is the reference \<open>m\<close>
  itself and the store is as before: a write \<open>m[k] = v\<close> made later by the caller is
  read through the child. When \<open>p\<close> has a field, the child's field set is a map object
  at a fresh address, different from \<open>m\<close>, and a later write to \<open>m\<close> does not reach it.
\<close>

theorem WithFields_shares_map_of_caller:
  assumes "valid_ref h (fields_ref p)" and "valid_ref h m"
    and "WithFields p m h = (c, h')"
  shows "(len h (fields_ref p) = 0 \<longrightarrow>
            fields_ref c = m \<and> h' = h \<and>
            (\<forall>a k v. m = Some a \<longrightarrow>
               map_of (deref (assign a k v h') (fields_ref c)) k = Some v))
       \<and> (len h (fields_ref p) \<noteq> 0 \<longrightarrow>
            fields_ref c = Some (length h) \<and> fields_ref c \<noteq> m \<and> length h' = Suc (length h) \<and>
            (\<forall>a k v. m = Some a \<longrightarrow>
               deref (assign a k v h') (fields_ref c) = deref h' (fields_ref c)))"
proof (cases "deref h (fields_ref p) = []")
  case True
  from assms(3) True have c: "fields_ref c = m" and h': "h' = h"
    by (auto simp: WithFields_empty)
  have "map_of (deref (assign a k v h') (fields_ref c)) k = Some v" if "m = Some a" for a k v
    using that assms(2) by (simp add: c h' valid_ref_def map_of_assign_same)
  with True c h' show ?thesis by (simp add: len_def)
next
  case False
  from WithFields_nonempty [OF False assms(1,2)] assms(3)
  have c: "fields_ref c = Some (length h)" and l: "length h' = Suc (length h)"
    by auto
  have ne: "fields_ref c \<noteq> m"
    using assms(2) by (auto simp: c valid_ref_def)
  have "deref (assign a k v h') (fields_ref c) = deref h' (fields_ref c)" if "m = Some a" for a k v
    using that assms(2) by (simp add: c valid_ref_def deref_def assign_def)
  with False c l ne show ?thesis by (simp add: len_def)
qed

theorem WithFields_shares_map_of_caller_witness:
  "valid_ref ex_store None \<and> valid_ref ex_store (Some 0)
   \<and> WithFields \<lparr>logr = 7, fields_ref = None\<rparr> (Some 0) ex_store
        = (\<lparr>logr = 7, fields_ref = Some 0\<rparr>, ex_store)
   \<and> map_of (deref (assign 0 ''role'' 2 ex_store) (Some 0)) ''role'' = Some 2
   \<and> valid_ref ex_store (Some 1)
   \<and> len ex_store (Some 0) \<noteq> 0
   \<and> fst (WithFields \<lparr>logr = 7, fields_ref = Some 0\<rparr> (Some 1) ex_store)
        = \<lparr>logr = 7, fields_ref = Some 2\<rparr>"
  using WithFields_shares_map_of_caller [of ex_store "\<lparr>logr = 7, fields_ref = None\<rparr>" "Some 0"
      "\<lparr>logr = 7, fields_ref = Some 0\<rparr>" ex_store]
    WithFields_shares_map_of_caller [of ex_store "\<lparr>logr = 7, fields_ref = Some 0\<rparr>" "Some 1"
      "fst (WithFields \<lparr>logr = 7, fields_ref = Some 0\<rparr> (Some 1) ex_store)"
      "snd (WithFields \<lparr>logr = 7, fields_ref = Some 0\<rparr> (Some 1) ex_store)"]
  by (simp add: valid_ref_def ex_store_def len_def deref_def WithFields_def make_map_def assign_def)

section \<open>Properties of the logging calls\<close>

subsection \<open>The three logging calls\<close>

lemma NewLogRec_newline:
  "(NewLogRec lvl logger format args s)\<lparr>newline := False\<rparr> = NewLogRec lvl logger format args s"
  by (simp add: NewLogRec_def)

lemma Log_result:
  "Log E logger lvl args w =
    (Returns, w\<lparr>logrs := (logrs w)(logr logger :=
                   dispatched E logger lvl [] args False (logrs w (logr logger))),
               calls := calls w @ funnel E logger lvl [] args False w\<rparr>)"
  by (simp add: Log_def funnel_def dispatched_def call_IsLevelEnabled_def call_NewLogRec_def
      call_enqueue_def NewLogRec_newline Let_def split: prod.splits)

lemma Logf_result:
  "Logf E logger lvl format args w =
    (Returns, w\<lparr>logrs := (logrs w)(logr logger :=
                   dispatched E logger lvl format args False (logrs w (logr logger))),
               calls := calls w @ funnel E logger lvl format args False w\<rparr>)"
  by (simp add: Logf_def funnel_def dispatched_def call_IsLevelEnabled_def call_NewLogRec_def
      call_enqueue_def NewLogRec_newline Let_def split: prod.splits)

lemma Logln_result:
  "Logln E logger lvl args w =
    (Returns, w\<lparr>logrs := (logrs w)(logr logger :=
                   dispatched E logger lvl [] args True (logrs w (logr logger))),
               calls := calls w @ funnel E logger lvl [] args True w\<rparr>)"
  by (simp add: Logln_def funnel_def dispatched_def call_IsLevelEnabled_def call_NewLogRec_def
      call_enqueue_def Let_def split: prod.splits)

lemma Log_calls:
  "fst (Log E logger lvl args w) = Returns \<and>
   calls (snd (Log E logger lvl args w)) = calls w @ funnel E logger lvl [] args False w"
  by (simp add: Log_result)

lemma Logf_calls:
  "fst (Logf E logger lvl format args w) = Returns \<and>
   calls (snd (Logf E logger lvl format args w)) = calls w @ funnel E logger lvl format args False w"
  by (simp add: Logf_result)

lemma Logln_calls:
  "fst (Logln E logger lvl args w) = Returns \<and>
   calls (snd (Logln E logger lvl args w)) = calls w @ funnel E logger lvl [] args True w"
  by (simp add: Logln_result)

lemma and_then_Returns:
  "fst (f w) = Returns \<Longrightarrow> and_then f g w = g (snd (f w))"
  by (cases "f w") (simp add: and_then_def)

lemma call_exit_calls: "calls (snd (call_exit E p code w)) = calls w @ [Call_exit p code]"
  by (simp add: call_exit_def Let_def split: option.splits)

lemma call_exit_outcome:
  "fst (call_exit E p code w) = (case exit E code (logrs w p) of None \<Rightarrow> Exits code | Some d \<Rightarrow> Returns)"
  by (simp add: call_exit_def Let_def split: option.splits)

subsection \<open>Every variant goes through IsLevelEnabled, then NewLogRec and enqueue\<close>

text \<open>
  Claim C1. For every level and argument list, the calls that \<open>Log\<close>, \<open>Logf\<close> and \<open>Logln\<close>
  add to the world are those of \<open>funnel\<close>: \<open>IsLevelEnabled(lvl)\<close> first, then \<open>NewLogRec\<close>
  (with the returned stacktrace decision) and \<open>enqueue\<close> of the record exactly when the
  returned status has \<open>Enabled\<close> set, and nothing (no record) otherwise. Each per-level
  wrapper makes the calls of the funnel at its level; the Fatal wrappers make one more
  call afterwards, the exit hook.
\<close>

theorem logging_variants_funnel:
  "calls (snd (Log E logger lvl args w)) = calls w @ funnel E logger lvl [] args False w
 \<and> calls (snd (Logf E logger lvl format args w)) = calls w @ funnel E logger lvl format args False w
 \<and> calls (snd (Logln E logger lvl args w)) = calls w @ funnel E logger lvl [] args True w
 \<and> calls (snd (Trace E logger args w)) = calls w @ funnel E logger (TraceLevel E) [] args False w
 \<and> calls (snd (Debug E logger args w)) = calls w @ funnel E logger (DebugLevel E) [] args False w
 \<and> calls (snd (Print E logger args w)) = calls w @ funnel E logger (InfoLevel E) [] args False w
 \<and> calls (snd (Info E logger args w)) = calls w @ funnel E logger (InfoLevel E) [] args False w
 \<and> calls (snd (Warn E logger args w)) = calls w @ funnel E logger (WarnLevel E) [] args False w
 \<and> calls (snd (Error E logger args w)) = calls w @ funnel E logger (ErrorLevel E) [] args False w
 \<and> calls (snd (Fatal E logger args w))
      = calls w @ funnel E logger (FatalLevel E) [] args False w @ [Call_exit (logr logger) 1]
 \<and> calls (snd (Panic E logger args w)) = calls w @ funnel E logger (PanicLevel E) [] args False w
 \<and> calls (snd (Tracef E logger format args w))
      = calls w @ funnel E logger (TraceLevel E) format args False w
 \<and> calls (snd (Debugf E logger format args w))
      = calls w @ funnel E logger (DebugLevel E) format args False w
 \<and> calls (snd (Infof E logger format args w))
      = calls w @ funnel E logger (InfoLevel E) format args False w
 \<and> calls (snd (Printf E logger format args w))
      = calls w @ funnel E logger (InfoLevel E) format args False w
 \<and> calls (snd (Warnf E logger format args w))
      = calls w @ funnel E logger (WarnLevel E) format args False w
 \<and> calls (snd (Errorf E logger format args w))
      = calls w @ funnel E logger (ErrorLevel E) format args False w
 \<and> calls (snd (Fatalf E logger format args w))
      = calls w @ funnel E logger (FatalLevel E) format args False w @ [Call_exit (logr logger) 1]
 \<and> calls (snd (Panicf E logger format args w))
      = calls w @ funnel E logger (PanicLevel E) format args False w
 \<and> calls (snd (Traceln E logger args w)) = calls w @ funnel E logger (TraceLevel E) [] args True w
 \<and> calls (snd (Debugln E logger args w)) = calls w @ funnel E logger (DebugLevel E) [] args True w
 \<and> calls (snd (Infoln E logger args w)) = calls w @ funnel E logger (InfoLevel E) [] args True w
 \<and> calls (snd (Println E logger args w)) = calls w @ funnel E logger (InfoLevel E) [] args True w
 \<and> calls (snd (Warnln E logger args w)) = calls w @ funnel E logger (WarnLevel E) [] args True w
 \<and> calls (snd (Errorln E logger args w)) = calls w @ funnel E logger (ErrorLevel E) [] args True w
 \<and> calls (snd (Fatalln E logger args w))
      = calls w @ funnel E logger (FatalLevel E) [] args True w @ [Call_exit (logr logger) 1]
 \<and> calls (snd (Panicln E logger args w)) = calls w @ funnel E logger (PanicLevel E) [] args True w"
  by (simp add: Trace_def Debug_def Print_def Info_def Warn_def Error_def Fatal_def Panic_def
      Tracef_def Debugf_def Infof_def Printf_def Warnf_def Errorf_def Fatalf_def Panicf_def
      Traceln_def Debugln_def Infoln_def Println_def Warnln_def Errorln_def Fatalln_def Panicln_def
      and_then_Returns Log_calls Logf_calls Logln_calls call_exit_calls panic_def)

subsection \<open>Panic logs, then panics\<close>

text \<open>
  Claim C4. For every argument list, \<open>Panic\<close> makes the calls of the funnel at the Panic
  level (so the record is enqueued when the level is enabled) and then ends in a panic
  that carries \<open>fmt.Sprint(args...)\<close>; the world in which it panics is the one the logging
  call has left, so the escalation comes after the logging call.
\<close>

theorem Panic_logs_then_panics:
  "Panic E logger args w = (Panics (Sprint E args), snd (Log E logger (PanicLevel E) args w))
 \<and> calls (snd (Panic E logger args w)) = calls w @ funnel E logger (PanicLevel E) [] args False w
 \<and> logrs (snd (Panic E logger args w))
      = (logrs w)(logr logger :=
           dispatched E logger (PanicLevel E) [] args False (logrs w (logr logger)))"
  by (simp add: Panic_def and_then_Returns Log_calls panic_def) (simp add: Log_result)

subsection \<open>Panicf and Panicln log and return\<close>

text \<open>
  Claim C5. For every format string and argument list, \<open>Panicf\<close> and \<open>Panicln\<close> do what
  \<open>Logf\<close> and \<open>Logln\<close> do at the Panic level (the calls of the funnel at that level) and
  return; \<open>Panic\<close>, unlike them, never returns.
\<close>

theorem Panicf_Panicln_return:
  "Panicf E logger format args w = Logf E logger (PanicLevel E) format args w
 \<and> fst (Panicf E logger format args w) = Returns
 \<and> Panicln E logger args w = Logln E logger (PanicLevel E) args w
 \<and> fst (Panicln E logger args w) = Returns
 \<and> calls (snd (Panicf E logger format args w))
      = calls w @ funnel E logger (PanicLevel E) format args False w
 \<and> calls (snd (Panicln E logger args w)) = calls w @ funnel E logger (PanicLevel E) [] args True w
 \<and> fst (Panic E logger args w) \<noteq> Returns"
  by (simp add: Panicf_def Panicln_def Panic_def Logf_calls Logln_calls and_then_Returns Log_calls
      panic_def)

subsection \<open>The fatal calls invoke the exit hook with 1, after logging\<close>

text \<open>
  Claim C6. \<open>Fatal\<close>, \<open>Fatalf\<close> and \<open>Fatalln\<close> each make the calls of the funnel at the Fatal
  level and then, as the last call and once, call the exit hook with status 1: the hook
  comes after \<open>enqueue\<close> whenever a record is enqueued, and never before the logging call.
  The call ends as the hook decides: the process has exited with 1, or the call returns.
\<close>

theorem Fatal_exit_after_logging:
  "calls (snd (Fatal E logger args w))
      = calls w @ funnel E logger (FatalLevel E) [] args False w @ [Call_exit (logr logger) 1]
 \<and> calls (snd (Fatalf E logger format args w))
      = calls w @ funnel E logger (FatalLevel E) format args False w @ [Call_exit (logr logger) 1]
 \<and> calls (snd (Fatalln E logger args w))
      = calls w @ funnel E logger (FatalLevel E) [] args True w @ [Call_exit (logr logger) 1]
 \<and> Call_exit (logr logger) 1 \<notin> set (funnel E logger (FatalLevel E) format args nl w)
 \<and> fst (Fatal E logger args w)
      = (case exit E 1 (dispatched E logger (FatalLevel E) [] args False (logrs w (logr logger))) of
           None \<Rightarrow> Exits 1 | Some d \<Rightarrow> Returns)
 \<and> fst (Fatalf E logger format args w)
      = (case exit E 1 (dispatched E logger (FatalLevel E) format args False (logrs w (logr logger))) of
           None \<Rightarrow> Exits 1 | Some d \<Rightarrow> Returns)
 \<and> fst (Fatalln E logger args w)
      = (case exit E 1 (dispatched E logger (FatalLevel E) [] args True (logrs w (logr logger))) of
           None \<Rightarrow> Exits 1 | Some d \<Rightarrow> Returns)"
proof -
  have a: "Call_exit (logr logger) 1 \<notin> set (funnel E logger (FatalLevel E) format args nl w)"
    by (simp add: funnel_def Let_def)
  have b: "fst (Fatal E logger args w)
      = (case exit E 1 (dispatched E logger (FatalLevel E) [] args False (logrs w (logr logger))) of
           None \<Rightarrow> Exits 1 | Some d \<Rightarrow> Returns)"
    by (simp add: Fatal_def and_then_Returns Log_calls call_exit_outcome) (simp add: Log_result)
  have c: "fst (Fatalf E logger format args w)
      = (case exit E 1 (dispatched E logger (FatalLevel E) format args False (logrs w (logr logger))) of
           None \<Rightarrow> Exits 1 | Some d \<Rightarrow> Returns)"
    by (simp add: Fatalf_def and_then_Returns Logf_calls call_exit_outcome) (simp add: Logf_result)
  have d: "fst (Fatalln E logger args w)
      = (case exit E 1 (dispatched E logger (FatalLevel E) [] args True (logrs w (logr logger))) of
           None \<Rightarrow> Exits 1 | Some d \<Rightarrow> Returns)"
    by (simp add: Fatalln_def and_then_Returns Logln_calls call_exit_outcome) (simp add: Logln_result)
  have e: "calls (snd (Fatal E logger args w))
      = calls w @ funnel E logger (FatalLevel E) [] args False w @ [Call_exit (logr logger) 1]"
    by (simp add: Fatal_def and_then_Returns Log_calls call_exit_calls)
  have f: "calls (snd (Fatalf E logger format args w))
      = calls w @ funnel E logger (FatalLevel E) format args False w @ [Call_exit (logr logger) 1]"
    by (simp add: Fatalf_def and_then_Returns Logf_calls call_exit_calls)
  have g: "calls (snd (Fatalln E logger args w))
      = calls w @ funnel E logger (FatalLevel E) [] args True w @ [Call_exit (logr logger) 1]"
    by (simp add: Fatalln_def and_then_Returns Logln_calls call_exit_calls)
  from a b c d e f g show ?thesis by blast
qed

section \<open>Properties of logging through the explicit filter\<close>

subsection \<open>Registration and evaluation\<close>

lemma Add_registers: "lvl \<in> set levels \<Longrightarrow> Add levels f (ID lvl) \<noteq> None"
proof -
  have "fold (\<lambda>s m. m(ID s \<mapsto> s)) levels m (ID lvl) \<noteq> None"
    if "m (ID lvl) \<noteq> None \<or> lvl \<in> set levels" for m
    using that by (induction levels arbitrary: m) auto
  then show "lvl \<in> set levels \<Longrightarrow> Add levels f (ID lvl) \<noteq> None"
    by (simp add: Add_def)
qed

lemma Evaluate_invalid_disabled: "M < ID lvl \<Longrightarrow> \<not> enabled (Evaluate M f lvl)"
  by (simp add: Evaluate_def split: option.splits)

lemma Evaluate_invalid_err:
  "M < ID lvl \<Longrightarrow>
   err (Evaluate M f lvl) = (if f (ID lvl) = None then None else Some (InvalidLevelID (ID lvl)))"
  by (simp add: Evaluate_def split: option.splits)

text \<open>Among the errors of the targets' evaluations, the first is the invalid level id.\<close>

lemma map_filter_invalid:
  assumes "M < ID lvl" and "t \<in> set ts" and "filter_t t (ID lvl) \<noteq> None"
  shows "\<exists>es. List.map_filter err (map (\<lambda>t. Evaluate M (filter_t t) lvl) ts)
              = InvalidLevelID (ID lvl) # es"
  using assms(2,3)
proof (induction ts)
  case Nil
  then show ?case by simp
next
  case (Cons a ts)
  show ?case
  proof (cases "filter_t a (ID lvl) = None")
    case True
    with Cons have "t \<in> set ts" by auto
    from Cons.IH [OF this Cons.prems(2)] True assms(1) show ?thesis
      by (simp add: List.map_filter_simps Evaluate_invalid_err)
  next
    case False
    with assms(1) show ?thesis
      by (auto simp add: List.map_filter_simps Evaluate_invalid_err)
  qed
qed

lemma Logr_IsLevelEnabled_invalid:
  assumes "M < ID lvl" and "t \<in> set (targets d)" and "filter_t t (ID lvl) \<noteq> None"
  shows "Logr_IsLevelEnabled M lvl d =
    (\<lparr>Enabled = False, Stacktrace = False\<rparr>,
     d\<lparr>reported := reported d @ [InvalidLevelID (ID lvl)]\<rparr>)"
proof -
  from map_filter_invalid [OF assms] obtain es where
    es: "List.map_filter err (map (\<lambda>t. Evaluate M (filter_t t) lvl) (targets d))
          = InvalidLevelID (ID lvl) # es"
    by blast
  have no: "\<not> list_ex enabled (map (\<lambda>t. Evaluate M (filter_t t) lvl) (targets d))"
    using assms(1) by (simp add: list_ex_iff Evaluate_invalid_disabled)
  have no2: "\<not> list_ex (\<lambda>r. enabled r \<and> needsStacktrace r)
                (map (\<lambda>t. Evaluate M (filter_t t) lvl) (targets d))"
    using assms(1) by (simp add: list_ex_iff Evaluate_invalid_disabled)
  show ?thesis
    unfolding Logr_IsLevelEnabled_def Let_def es using no no2 by simp
qed

lemma dispatched_invalid:
  assumes "M < ID lvl" and "t \<in> set (targets d)" and "filter_t t (ID lvl) \<noteq> None"
  shows "dispatched (on_Logr M E) logger lvl format args nl d
       = d\<lparr>reported := reported d @ [InvalidLevelID (ID lvl)]\<rparr>"
  by (simp add: dispatched_def on_Logr_def Logr_IsLevelEnabled_invalid [OF assms])

lemma funnel_invalid:
  assumes "M < ID lvl" and "t \<in> set (targets (logrs w (logr logger)))"
    and "filter_t t (ID lvl) \<noteq> None"
  shows "funnel (on_Logr M E) logger lvl format args nl w = [Call_IsLevelEnabled (logr logger) lvl]"
  by (simp add: funnel_def on_Logr_def Logr_IsLevelEnabled_invalid [OF assms])

subsection \<open>A level beyond MaxLevelID: nothing enabled, one report per logging call\<close>

text \<open>
  Claim C3. Let a level \<open>lvl\<close> whose id exceeds \<open>MaxLevelID\<close> be among the levels registered
  with \<open>Add\<close> in the explicit filter of a target \<open>t\<close> of the logger's dispatcher. The
  registration has taken place (the filter holds the id). Then no target's filter
  enables \<open>lvl\<close>, and each logging call at \<open>lvl\<close> (\<open>Log\<close>, \<open>Logf\<close>, \<open>Logln\<close>) returns, calls
  \<open>IsLevelEnabled\<close> and nothing else (no record, no \<open>enqueue\<close>), leaves the targets and
  their queues as they were, and hands exactly one error, the invalid level id, to the
  error-reporting hook.
\<close>

theorem invalid_level_reported_once:
  assumes "M < ID lvl"
    and "t \<in> set (targets (logrs w (logr logger)))"
    and "filter_t t = Add levels f" and "lvl \<in> set levels"
  shows "Add levels f (ID lvl) \<noteq> None
    \<and> list_all (\<lambda>t'. \<not> enabled (Evaluate M (filter_t t') lvl)) (targets (logrs w (logr logger)))
    \<and> Log (on_Logr M E) logger lvl args w =
        (Returns,
         w\<lparr>logrs := (logrs w)(logr logger := (logrs w (logr logger))
                      \<lparr>reported := reported (logrs w (logr logger)) @ [InvalidLevelID (ID lvl)]\<rparr>),
           calls := calls w @ [Call_IsLevelEnabled (logr logger) lvl]\<rparr>)
    \<and> Logf (on_Logr M E) logger lvl format args w =
        (Returns,
         w\<lparr>logrs := (logrs w)(logr logger := (logrs w (logr logger))
                      \<lparr>reported := reported (logrs w (logr logger)) @ [InvalidLevelID (ID lvl)]\<rparr>),
           calls := calls w @ [Call_IsLevelEnabled (logr logger) lvl]\<rparr>)
    \<and> Logln (on_Logr M E) logger lvl args w =
        (Returns,
         w\<lparr>logrs := (logrs w)(logr logger := (logrs w (logr logger))
                      \<lparr>reported := reported (logrs w (logr logger)) @ [InvalidLevelID (ID lvl)]\<rparr>),
           calls := calls w @ [Call_IsLevelEnabled (logr logger) lvl]\<rparr>)"
proof -
  have reg: "filter_t t (ID lvl) \<noteq> None"
    using assms(3,4) by (simp add: Add_registers)
  have none: "list_all (\<lambda>t'. \<not> enabled (Evaluate M (filter_t t') lvl))
      (targets (logrs w (logr logger)))"
    using assms(1) by (simp add: list_all_iff Evaluate_invalid_disabled)
  note d = dispatched_invalid [OF assms(1,2) reg]
  note c = funnel_invalid [OF assms(1,2) reg]
  have 1: "Log (on_Logr M E) logger lvl args w =
        (Returns,
         w\<lparr>logrs := (logrs w)(logr logger := (logrs w (logr logger))
                      \<lparr>reported := reported (logrs w (logr logger)) @ [InvalidLevelID (ID lvl)]\<rparr>),
           calls := calls w @ [Call_IsLevelEnabled (logr logger) lvl]\<rparr>)"
    by (simp add: Log_result d c)
  have 2: "Logf (on_Logr M E) logger lvl format args w =
        (Returns,
         w\<lparr>logrs := (logrs w)(logr logger := (logrs w (logr logger))
                      \<lparr>reported := reported (logrs w (logr logger)) @ [InvalidLevelID (ID lvl)]\<rparr>),
           calls := calls w @ [Call_IsLevelEnabled (logr logger) lvl]\<rparr>)"
    by (simp add: Logf_result d c)
  have 3: "Logln (on_Logr M E) logger lvl args w =
        (Returns,
         w\<lparr>logrs := (logrs w)(logr logger := (logrs w (logr logger))
                      \<lparr>reported := reported (logrs w (logr logger)) @ [InvalidLevelID (ID lvl)]\<rparr>),
           calls := calls w @ [Call_IsLevelEnabled (logr logger) lvl]\<rparr>)"
    by (simp add: Logln_result d c)
  from reg assms(3) none 1 2 3 show ?thesis by simp
qed

theorem invalid_level_reported_once_witness:
  "255 < ID (BadLevel 255)
 \<and> test_Target (Add [BadLevel 255] Map.empty) \<in> set (targets (logrs bad_World (logr test_logger)))
 \<and> filter_t (test_Target (Add [BadLevel 255] Map.empty)) = Add [BadLevel 255] Map.empty
 \<and> BadLevel 255 \<in> set [BadLevel 255]
 \<and> reported (logrs (snd (Log (on_Logr 255 test_Env) test_logger (BadLevel 255) [] bad_World)) 0)
      = [InvalidLevelID 256]
 \<and> calls (snd (Log (on_Logr 255 test_Env) test_logger (BadLevel 255) [] bad_World))
      = [Call_IsLevelEnabled 0 (BadLevel 255)]"
proof -
  have a: "255 < ID (BadLevel 255)"
    by (simp add: BadLevel_def)
  have b: "test_Target (Add [BadLevel 255] Map.empty)
      \<in> set (targets (logrs bad_World (logr test_logger)))"
    by (simp add: bad_World_def test_World_def test_Logr_def)
  have c: "filter_t (test_Target (Add [BadLevel 255] Map.empty)) = Add [BadLevel 255] Map.empty"
    by (simp add: test_Target_def)
  have d: "BadLevel 255 \<in> set [BadLevel 255]"
    by simp
  from invalid_level_reported_once [OF a b c d, where E = test_Env and args = "[]"
      and format = "[]"] a b c
  show ?thesis
    by (simp add: bad_World_def test_World_def test_Logr_def test_logger_def BadLevel_def)
qed

subsection \<open>A filter with Login and Logout: only these two ids\<close>

lemma Add_Login_Logout:
  "Add [LoginLevel, LogoutLevel] Map.empty = [100 \<mapsto> LoginLevel, 101 \<mapsto> LogoutLevel]"
  by (simp add: Add_def LoginLevel_def LogoutLevel_def)

lemma Evaluate_Login_Logout:
  "Evaluate M (Add [LoginLevel, LogoutLevel] Map.empty) lvl =
    (if (ID lvl = 100 \<or> ID lvl = 101) \<and> ID lvl \<le> M
     then \<lparr>enabled = True, needsStacktrace = False, err = None\<rparr>
     else \<lparr>enabled = False, needsStacktrace = False,
           err = (if ID lvl = 100 \<or> ID lvl = 101 then Some (InvalidLevelID (ID lvl)) else None)\<rparr>)"
  unfolding Evaluate_def Add_Login_Logout
  by (auto simp add: LoginLevel_def LogoutLevel_def)

lemma IsLevelEnabled_other:
  assumes "targets d = [t]" and "filter_t t = Add [LoginLevel, LogoutLevel] Map.empty"
    and "ID lvl \<noteq> 100" and "ID lvl \<noteq> 101"
  shows "Logr_IsLevelEnabled M lvl d = (\<lparr>Enabled = False, Stacktrace = False\<rparr>, d)"
  using assms by (simp add: Logr_IsLevelEnabled_def Evaluate_Login_Logout List.map_filter_simps)

lemma IsLevelEnabled_registered:
  assumes "targets d = [t]" and "filter_t t = Add [LoginLevel, LogoutLevel] Map.empty"
    and "ID lvl = 100 \<or> ID lvl = 101" and "101 \<le> M"
  shows "Logr_IsLevelEnabled M lvl d = (\<lparr>Enabled = True, Stacktrace = False\<rparr>, d)"
  using assms
  by (auto simp add: Logr_IsLevelEnabled_def Evaluate_Login_Logout List.map_filter_simps)

lemma Log_other:
  assumes "targets (logrs w (logr logger)) = [t]"
    and "filter_t t = Add [LoginLevel, LogoutLevel] Map.empty"
    and "ID lvl \<noteq> 100" and "ID lvl \<noteq> 101"
  shows "Log (on_Logr M E) logger lvl args w
       = (Returns, w\<lparr>calls := calls w @ [Call_IsLevelEnabled (logr logger) lvl]\<rparr>)"
  by (simp add: Log_result dispatched_def funnel_def on_Logr_def IsLevelEnabled_other [OF assms])

lemma enqueue_registered:
  assumes "targets d = [t]" and "filter_t t = Add [LoginLevel, LogoutLevel] Map.empty"
    and "ID (level rec) = 100 \<or> ID (level rec) = 101" and "101 \<le> M"
    and "\<not> shutdown d" and "length (queue t) < capacity t"
  shows "Logr_enqueue M rec d = d\<lparr>targets := [t\<lparr>queue := queue t @ [rec]\<rparr>]\<rparr>"
  using assms by (auto simp add: Logr_enqueue_def Offer_def Evaluate_Login_Logout)

text \<open>
  Claim C7. Let the logger's dispatcher have one target, whose explicit filter was
  registered with exactly \<open>LoginLevel\<close> (id 100) and \<open>LogoutLevel\<close> (id 101). A level is
  enabled only when its id is 100 or 101. A logging call at any other level calls
  \<open>IsLevelEnabled\<close> and changes nothing else: no record is made and nothing reaches the
  target's queue (so nothing is written). This holds of \<open>Error\<close> and \<open>Debug\<close>, whose levels
  were never excluded, their ids being neither 100 nor 101. And a call at id 100 or 101
  puts its record on the target's queue (when these ids are within \<open>MaxLevelID\<close>, the
  dispatcher is not shut down and the queue has room).
\<close>

theorem custom_filter_only_registered_ids:
  assumes "targets (logrs w (logr logger)) = [t]"
    and "filter_t t = Add [LoginLevel, LogoutLevel] Map.empty"
  shows "(Enabled (fst (Logr_IsLevelEnabled M lvl (logrs w (logr logger))))
            \<longrightarrow> ID lvl = 100 \<or> ID lvl = 101)
    \<and> (ID lvl \<noteq> 100 \<and> ID lvl \<noteq> 101 \<longrightarrow>
          Log (on_Logr M E) logger lvl args w
            = (Returns, w\<lparr>calls := calls w @ [Call_IsLevelEnabled (logr logger) lvl]\<rparr>))
    \<and> (ID (ErrorLevel E) \<noteq> 100 \<and> ID (ErrorLevel E) \<noteq> 101 \<longrightarrow>
          Error (on_Logr M E) logger args w
            = (Returns, w\<lparr>calls := calls w @ [Call_IsLevelEnabled (logr logger) (ErrorLevel E)]\<rparr>))
    \<and> (ID (DebugLevel E) \<noteq> 100 \<and> ID (DebugLevel E) \<noteq> 101 \<longrightarrow>
          Debug (on_Logr M E) logger args w
            = (Returns, w\<lparr>calls := calls w @ [Call_IsLevelEnabled (logr logger) (DebugLevel E)]\<rparr>))
    \<and> ((ID lvl = 100 \<or> ID lvl = 101) \<and> 101 \<le> M \<and> \<not> shutdown (logrs w (logr logger))
          \<and> length (queue t) < capacity t \<longrightarrow>
          Log (on_Logr M E) logger lvl args w
            = (Returns,
               w\<lparr>logrs := (logrs w)(logr logger := (logrs w (logr logger))
                    \<lparr>targets := [t\<lparr>queue := queue t @ [NewLogRec lvl logger [] args False]\<rparr>]\<rparr>),
                 calls := calls w @
                    [Call_IsLevelEnabled (logr logger) lvl,
                     Call_NewLogRec lvl logger [] args False,
                     Call_enqueue (logr logger) (NewLogRec lvl logger [] args False)]\<rparr>))"
proof -
  let ?d = "logrs w (logr logger)"
  have 1: "Enabled (fst (Logr_IsLevelEnabled M lvl ?d)) \<longrightarrow> ID lvl = 100 \<or> ID lvl = 101"
  proof (cases "ID lvl = 100 \<or> ID lvl = 101")
    case True
    then show ?thesis by simp
  next
    case False
    then have "ID lvl \<noteq> 100" and "ID lvl \<noteq> 101" by simp_all
    from IsLevelEnabled_other [OF assms this] show ?thesis by simp
  qed
  have 2: "Log (on_Logr M E) logger l args w
            = (Returns, w\<lparr>calls := calls w @ [Call_IsLevelEnabled (logr logger) l]\<rparr>)"
    if "ID l \<noteq> 100 \<and> ID l \<noteq> 101" for l
    using that Log_other [OF assms, of l M E args] by simp
  have E: "ErrorLevel (on_Logr M E) = ErrorLevel E" "DebugLevel (on_Logr M E) = DebugLevel E"
    by (simp_all add: on_Logr_def)
  have 5: "Log (on_Logr M E) logger lvl args w
            = (Returns,
               w\<lparr>logrs := (logrs w)(logr logger := ?d
                    \<lparr>targets := [t\<lparr>queue := queue t @ [NewLogRec lvl logger [] args False]\<rparr>]\<rparr>),
                 calls := calls w @
                    [Call_IsLevelEnabled (logr logger) lvl,
                     Call_NewLogRec lvl logger [] args False,
                     Call_enqueue (logr logger) (NewLogRec lvl logger [] args False)]\<rparr>)"
    if h: "(ID lvl = 100 \<or> ID lvl = 101) \<and> 101 \<le> M \<and> \<not> shutdown ?d \<and> length (queue t) < capacity t"
  proof -
    from h have a: "ID lvl = 100 \<or> ID lvl = 101" and b: "101 \<le> M" and c: "\<not> shutdown ?d"
      and e: "length (queue t) < capacity t" by auto
    have lv: "ID (level (NewLogRec lvl logger [] args False)) = 100 \<or> ID (level (NewLogRec lvl logger [] args False)) = 101"
      using a by (simp add: NewLogRec_def)
    note i = IsLevelEnabled_registered [OF assms a b]
    note q = enqueue_registered [OF assms lv b c e]
    show ?thesis
      by (simp add: Log_result dispatched_def funnel_def on_Logr_def i q NewLogRec_newline)
  qed
  from 1 2 [of lvl] 2 [of "ErrorLevel E"] 2 [of "DebugLevel E"] 5 show ?thesis
    by (simp add: Error_def Debug_def E)
qed


theorem custom_filter_only_registered_ids_witness:
  "targets (logrs custom_World (logr test_logger))
      = [test_Target (Add [LoginLevel, LogoutLevel] Map.empty)]
 \<and> filter_t (test_Target (Add [LoginLevel, LogoutLevel] Map.empty))
      = Add [LoginLevel, LogoutLevel] Map.empty
 \<and> ID (ErrorLevel test_Env) \<noteq> 100 \<and> ID (ErrorLevel test_Env) \<noteq> 101
 \<and> ID (DebugLevel test_Env) \<noteq> 100 \<and> ID (DebugLevel test_Env) \<noteq> 101
 \<and> ID LoginLevel = 100 \<and> (101::nat) \<le> 255
 \<and> \<not> shutdown (logrs custom_World (logr test_logger))
 \<and> length (queue (test_Target (Add [LoginLevel, LogoutLevel] Map.empty)))
      < capacity (test_Target (Add [LoginLevel, LogoutLevel] Map.empty))
 \<and> snd (Error (on_Logr 255 test_Env) test_logger [7] custom_World)
      = custom_World\<lparr>calls := [Call_IsLevelEnabled 0 (ErrorLevel test_Env)]\<rparr>
 \<and> snd (Debug (on_Logr 255 test_Env) test_logger [7] custom_World)
      = custom_World\<lparr>calls := [Call_IsLevelEnabled 0 (DebugLevel test_Env)]\<rparr>
 \<and> map queue (targets (logrs (snd (Log (on_Logr 255 test_Env) test_logger LoginLevel [7]
        custom_World)) 0))
      = [[NewLogRec LoginLevel test_logger [] [7] False]]"
proof -
  have a: "targets (logrs custom_World (logr test_logger))
      = [test_Target (Add [LoginLevel, LogoutLevel] Map.empty)]"
    by (simp add: custom_World_def test_World_def test_Logr_def)
  have b: "filter_t (test_Target (Add [LoginLevel, LogoutLevel] Map.empty))
      = Add [LoginLevel, LogoutLevel] Map.empty"
    by (simp add: test_Target_def)
  have c: "ID (ErrorLevel test_Env) \<noteq> 100 \<and> ID (ErrorLevel test_Env) \<noteq> 101
      \<and> ID (DebugLevel test_Env) \<noteq> 100 \<and> ID (DebugLevel test_Env) \<noteq> 101
      \<and> ID LoginLevel = 100 \<and> (101::nat) \<le> 255
      \<and> \<not> shutdown (logrs custom_World (logr test_logger))
      \<and> length (queue (test_Target (Add [LoginLevel, LogoutLevel] Map.empty)))
          < capacity (test_Target (Add [LoginLevel, LogoutLevel] Map.empty))"
    by (simp add: test_Env_def LoginLevel_def custom_World_def test_World_def test_Logr_def
        test_Target_def)
  have e: "calls custom_World = []" and l: "logr test_logger = 0"
    and q: "queue (test_Target (Add [LoginLevel, LogoutLevel] Map.empty)) = []"
    by (simp_all add: custom_World_def test_World_def test_logger_def test_Target_def)
  from custom_filter_only_registered_ids [OF a b, where M = 255 and lvl = LoginLevel
      and E = test_Env and args = "[7]"] a b c
  show ?thesis
    by (simp add: e l q)
qed

section \<open>Properties of the JSON formatter\<close>

subsection \<open>Sorting by insertion meets what is asked of sort.Slice\<close>

lemma mset_insert_by: "mset (insert_by lessf x xs) = add_mset x (mset xs)"
  by (induction xs) auto

lemma mset_insertion_sort: "mset (insertion_sort lessf xs) = mset xs"
  by (induction xs) (auto simp: mset_insert_by)

lemma set_insert_by: "set (insert_by lessf x xs) = insert x (set xs)"
  by (induction xs) auto

lemma sorted_insert_by:
  "sorted_wrt (\<lambda>a b. Key a \<le> Key b) xs \<Longrightarrow>
   sorted_wrt (\<lambda>a b. Key a \<le> Key b) (insert_by less_Key x xs)"
  by (induction xs) (auto simp: set_insert_by less_Key_def)

lemma sorted_insertion_sort:
  "sorted_wrt (\<lambda>a b. Key a \<le> Key b) (insertion_sort less_Key xs)"
  by (induction xs) (auto simp: sorted_insert_by)

lemma sorts_by_Key_insertion_sort: "sorts_by_Key insertion_sort"
  by (simp add: sorts_by_Key_def mset_insertion_sort sorted_insertion_sort)

subsection \<open>Slices and the store\<close>

lemma length_elems: "valid_slice h s \<Longrightarrow> length (elems h s) = s_len s"
  by (auto simp: valid_slice_def elems_def)

lemma elems_append: "valid_slice h s \<Longrightarrow> elems (h @ r) s = elems h s"
  by (auto simp: valid_slice_def elems_def nth_append)

lemma elems_prefix:
  assumes "valid_slice h s" and "take (length h) h' = h"
  shows "elems h' s = elems h s"
proof -
  from assms(2) have "h' = h @ drop (length h) h'"
    by (metis append_take_drop_id)
  then show ?thesis
    using elems_append [OF assms(1), of "drop (length h) h'"] by simp
qed

lemma defaultContextSorter_store:
  "\<exists>ys. defaultContextSorter E flds h = (\<lparr>s_arr = length h, s_off = 0, s_len = s_len flds\<rparr>, h @ [ys])"
  by (simp add: defaultContextSorter_def make_slice_def copy_slice_def sort_Slice_def
      store_elems_def Let_def)

lemma defaultContextSorter_result:
  assumes "valid_slice h flds"
  shows "defaultContextSorter E flds h =
    (\<lparr>s_arr = length h, s_off = 0, s_len = s_len flds\<rparr>,
     h @ [sortSlice E less_Key (elems h flds)
          @ drop (length (sortSlice E less_Key (elems h flds))) (elems h flds)])"
proof -
  let ?n = "s_len flds"
  let ?s = "\<lparr>s_arr = length h, s_off = 0, s_len = ?n\<rparr>"
  let ?h1 = "h @ [replicate ?n zero_Field]"
  have e1: "elems ?h1 flds = elems h flds"
    by (rule elems_append [OF assms])
  have l: "length (elems h flds) = ?n"
    by (rule length_elems [OF assms])
  have c: "copy_slice ?s flds ?h1 = h @ [elems h flds]"
    by (simp add: copy_slice_def store_elems_def e1 l)
  have e2: "elems (h @ [elems h flds]) ?s = elems h flds"
    by (simp add: elems_def l)
  show ?thesis
    by (simp add: defaultContextSorter_def make_slice_def c sort_Slice_def e2)
      (simp add: store_elems_def l)
qed

lemma keeps_store_default: "keeps_store (defaultContextSorter E)"
  unfolding keeps_store_def
proof (intro allI)
  fix s h
  from defaultContextSorter_store [of E s h] obtain ys where
    "defaultContextSorter E s h = (\<lparr>s_arr = length h, s_off = 0, s_len = s_len s\<rparr>, h @ [ys])"
    by blast
  then show "take (length h) (snd (defaultContextSorter E s h)) = h" by simp
qed

lemma MarshalJSONObject_snd:
  "snd (MarshalJSONObject E j rec stacktrace sorter h)
     = (if DisableContext j then h else snd (sorter (rec_Fields rec) h))"
  by (simp add: MarshalJSONObject_def Let_def split_beta)

lemma MarshalJSONObject_store:
  "keeps_store sorter \<Longrightarrow> take (length h) (snd (MarshalJSONObject E j rec stacktrace sorter h)) = h"
  by (simp add: MarshalJSONObject_snd keeps_store_def)

lemma Format_store:
  assumes "case ContextSorter j of None \<Rightarrow> True | Some f \<Rightarrow> keeps_store f"
  shows "take (length h) (snd (snd (Format E j rec stacktrace h))) = h"
proof -
  let ?j = "if once j then j else (applyDefaultKeyNames j)\<lparr>once := True\<rparr>"
  have cs: "ContextSorter ?j = ContextSorter j"
    by (simp add: applyDefaultKeyNames_def Let_def)
  let ?sorter = "case ContextSorter ?j of None \<Rightarrow> defaultContextSorter E | Some f \<Rightarrow> f"
  have "keeps_store ?sorter"
    unfolding cs using assms by (simp add: keeps_store_default split: option.splits)
  from MarshalJSONObject_store [OF this, of h E ?j rec stacktrace]
  show ?thesis
    by (simp only: Format_def Let_def split_beta snd_conv)
qed

lemma elems_fresh:
  "length ys = n \<Longrightarrow> elems (h @ [ys]) \<lparr>s_arr = length h, s_off = 0, s_len = n\<rparr> = ys"
  by (simp add: elems_def)


subsection \<open>Formatting leaves the record's fields alone\<close>

text \<open>
  Claim C8. For every slice of fields in the store, the default context sorter returns
  a slice on a newly allocated array (its address did not exist before the call) that
  holds the same fields in non-descending order of their keys, and every array that
  existed before, the one under the input slice among them, is unmodified: the input
  slice has the same elements in the same order. \<open>JSON.Format\<close>, with the default sorter or
  with a \<open>ContextSorter\<close> that keeps to its doc comment, leaves every array of the store
  as it was, so the fields of the record it formats are the same elements in the same
  order afterwards. (\<open>sort.Slice\<close> is taken to sort, as the library promises.)
\<close>

theorem Format_leaves_record_fields:
  assumes "valid_slice h flds" and "valid_slice h (rec_Fields rec)"
    and "sorts_by_Key (sortSlice E)"
    and "case ContextSorter j of None \<Rightarrow> True | Some f \<Rightarrow> keeps_store f"
    and "defaultContextSorter E flds h = (res, h1)"
    and "Format E j rec stacktrace h = (members, j', h2)"
  shows "take (length h) h1 = h
       \<and> elems h1 flds = elems h flds
       \<and> s_arr res = length h \<and> length h1 = Suc (length h) \<and> s_len res = s_len flds
       \<and> mset (elems h1 res) = mset (elems h flds)
       \<and> sorted_wrt (\<lambda>a b. Key a \<le> Key b) (elems h1 res)
       \<and> take (length h) h2 = h
       \<and> elems h2 (rec_Fields rec) = elems h (rec_Fields rec)"
proof -
  let ?xs = "elems h flds"
  let ?ys = "sortSlice E less_Key ?xs"
  from assms(3) have m: "mset ?ys = mset ?xs" and s: "sorted_wrt (\<lambda>a b. Key a \<le> Key b) ?ys"
    by (simp_all add: sorts_by_Key_def)
  from m have ly: "length ?ys = length ?xs"
    by (metis size_mset)
  have lx: "length ?xs = s_len flds"
    by (rule length_elems [OF assms(1)])
  from defaultContextSorter_result [OF assms(1), of E] assms(5)
  have res: "res = \<lparr>s_arr = length h, s_off = 0, s_len = s_len flds\<rparr>"
    and "h1 = h @ [?ys @ drop (length ?ys) ?xs]"
    by simp_all
  then have h1: "h1 = h @ [?ys]"
    by (simp only: ly drop_all order_refl append_Nil2)
  have "length ?ys = s_len flds"
    using ly lx by simp
  then have e: "elems h1 res = ?ys"
    unfolding res h1 by (rule elems_fresh)
  have f1: "take (length h) h1 = h"
    by (simp add: h1)
  have f2: "take (length h) h2 = h"
    using Format_store [OF assms(4), of h E rec stacktrace] assms(6) by simp
  from elems_prefix [OF assms(1) f1] elems_prefix [OF assms(2) f2] f1 f2 m s
  show ?thesis
    by (simp add: e) (simp add: res h1)
qed


theorem Format_leaves_record_fields_witness:
  "valid_slice [test_fields] (rec_Fields (test_Rec 2))
 \<and> sorts_by_Key (sortSlice test_FmtEnv)
 \<and> (case ContextSorter test_JSON of None \<Rightarrow> True | Some f \<Rightarrow> keeps_store f)
 \<and> elems (snd (defaultContextSorter test_FmtEnv (rec_Fields (test_Rec 2)) [test_fields]))
       (rec_Fields (test_Rec 2)) = test_fields
 \<and> take 1 (snd (snd (Format test_FmtEnv test_JSON (test_Rec 2) False [test_fields]))) = [test_fields]
 \<and> map Key (elems (snd (defaultContextSorter test_FmtEnv (rec_Fields (test_Rec 2)) [test_fields]))
       (fst (defaultContextSorter test_FmtEnv (rec_Fields (test_Rec 2)) [test_fields])))
     = [''role'', ''user'']"
proof -
  have v: "valid_slice [test_fields] (rec_Fields (test_Rec 2))"
    by (simp add: valid_slice_def test_Rec_def test_fields_def)
  have s: "sorts_by_Key (sortSlice test_FmtEnv)"
    by (simp add: test_FmtEnv_def sorts_by_Key_insertion_sort)
  have c: "case ContextSorter test_JSON of None \<Rightarrow> True | Some f \<Rightarrow> keeps_store f"
    by (simp add: test_JSON_def)
  have r: "map Key (elems (snd (defaultContextSorter test_FmtEnv (rec_Fields (test_Rec 2)) [test_fields]))
       (fst (defaultContextSorter test_FmtEnv (rec_Fields (test_Rec 2)) [test_fields])))
     = [''role'', ''user'']"
    by code_simp
  have d: "defaultContextSorter test_FmtEnv (rec_Fields (test_Rec 2)) [test_fields]
      = (fst (defaultContextSorter test_FmtEnv (rec_Fields (test_Rec 2)) [test_fields]),
         snd (defaultContextSorter test_FmtEnv (rec_Fields (test_Rec 2)) [test_fields]))"
    by simp
  have f: "Format test_FmtEnv test_JSON (test_Rec 2) False [test_fields]
      = (fst (Format test_FmtEnv test_JSON (test_Rec 2) False [test_fields]),
         fst (snd (Format test_FmtEnv test_JSON (test_Rec 2) False [test_fields])),
         snd (snd (Format test_FmtEnv test_JSON (test_Rec 2) False [test_fields])))"
    by simp
  from Format_leaves_record_fields [OF v v s c d f]
    v s c r
  show ?thesis
    by (simp add: elems_def test_Rec_def test_fields_def)
qed


subsection \<open>Keys of context fields against the reserved keys\<close>

text \<open>
  \<open>prefixCollision\<close> is total (its termination is proved with its definition: every
  recursive call makes the key longer, and a key longer than the four reserved ones
  collides with none). Its result is none of the four reserved keys of the formatter,
  and is the key with underscores in front.
\<close>

lemma prefixCollision_not_reserved:
  "prefixCollision j key \<noteq> KeyTimestamp j \<and> prefixCollision j key \<noteq> KeyLevel j
 \<and> prefixCollision j key \<noteq> KeyMsg j \<and> prefixCollision j key \<noteq> KeyStacktrace j"
proof (induction j key rule: prefixCollision.induct)
  case (1 j key)
  show ?case
  proof (cases "key = KeyTimestamp j \<or> key = KeyLevel j \<or> key = KeyMsg j \<or> key = KeyStacktrace j")
    case True
    then have "prefixCollision j key = prefixCollision j (CHR ''_'' # key)"
      by (subst prefixCollision.simps) simp
    with 1 [OF True] show ?thesis by simp
  next
    case False
    then have "prefixCollision j key = key"
      by (subst prefixCollision.simps) simp
    with False show ?thesis by simp
  qed
qed

lemma prefixCollision_underscores:
  "\<exists>n. prefixCollision j key = replicate n (CHR ''_'') @ key"
proof (induction j key rule: prefixCollision.induct)
  case (1 j key)
  show ?case
  proof (cases "key = KeyTimestamp j \<or> key = KeyLevel j \<or> key = KeyMsg j \<or> key = KeyStacktrace j")
    case True
    then have e: "prefixCollision j key = prefixCollision j (CHR ''_'' # key)"
      by (subst prefixCollision.simps) simp
    from 1 [OF True] obtain n where "prefixCollision j (CHR ''_'' # key) = replicate n (CHR ''_'') @ CHR ''_'' # key"
      by blast
    then have "prefixCollision j key = replicate (Suc n) (CHR ''_'') @ key"
      by (simp add: e replicate_app_Cons_same)
    then show ?thesis by blast
  next
    case False
    then have "prefixCollision j key = replicate 0 (CHR ''_'') @ key"
      by (subst prefixCollision.simps) simp
    then show ?thesis by blast
  qed
qed

text \<open>
  Claim C10. \<open>prefixCollision\<close> does what the claim says (the two lemmas above), and
  \<open>MarshalJSONObject\<close> passes its result to \<open>encodeField\<close>. But the arm of \<open>encodeField\<close> for
  \<open>UnknownType\<close> adds the member under \<open>field.Key\<close>, not under the key it was passed: with
  the default key names, a context field of that type with the key \<open>msg\<close> is emitted under
  \<open>msg\<close>, the key of the record's message, although \<open>prefixCollision\<close> has made \<open>_msg\<close> of it.
\<close>

theorem UnknownType_field_under_reserved_key:
  "prefixCollision (applyDefaultKeyNames test_JSON) ''msg'' = ''_msg''
 \<and> fst (Format test_FmtEnv test_JSON (test_Rec 1) False
        [[\<lparr>Key = ''msg'', Type = UnknownType, Integer = 0\<rparr>]])
    = [AddTimeKey ''timestamp'' 0 ''2006-01-02 15:04:05.000 Z07:00'',
       AddStringKey ''level'' ''login '',
       AddStringKey ''msg'' ''hello'',
       AddStringKey ''msg'' ''UnknownType'']"
  by code_simp

end
